theory Spec2Isabelle
  imports Main "HOL-Library.Char_ord" "HOL-Library.List_Lexorder" "HOL-Library.Word"
begin

unbundle bit_operations_syntax

section \<open>Python values the viewer works with\<close>

text \<open>
  The exceptions of the source are values: a function that may raise returns
  \<open>exn + 'a\<close>, with \<open>Inl\<close> for the exception raised.
\<close>

datatype exn =
    IndexError | KeyError | TypeError | ValueError | AttributeError
  | FileNotFoundError | NotImplementedError | JSONDecodeError | RecursionError
  | OSError string | NotModelled

definition bind_exn :: "exn + 'a \<Rightarrow> ('a \<Rightarrow> exn + 'b) \<Rightarrow> exn + 'b" where
  "bind_exn m f = (case m of Inl e \<Rightarrow> Inl e | Inr x \<Rightarrow> f x)"

fun mapM_exn :: "('a \<Rightarrow> exn + 'b) \<Rightarrow> 'a list \<Rightarrow> exn + 'b list" where
  "mapM_exn f [] = Inr []"
| "mapM_exn f (x # xs) =
     bind_exn (f x) (\<lambda>y. bind_exn (mapM_exn f xs) (\<lambda>ys. Inr (y # ys)))"

subsection \<open>Decimal numerals\<close>

definition digit_char :: "nat \<Rightarrow> char" where
  "digit_char d = ''0123456789'' ! d"

function str_of_nat :: "nat \<Rightarrow> string" where
  "str_of_nat n = (if n < 10 then [digit_char n] else str_of_nat (n div 10) @ [digit_char (n mod 10)])"
  by pat_completeness auto
termination
  by (relation "measure (\<lambda>n. n)") auto

declare str_of_nat.simps [simp del]

definition str_of_int :: "int \<Rightarrow> string" where
  "str_of_int i = (if i < 0 then CHR ''-'' # str_of_nat (nat (- i)) else str_of_nat (nat i))"

subsection \<open>pathlib\<close>

text \<open>
  A \<open>pathlib.PurePosixPath\<close> is its root (\<open>''''\<close>, \<open>''/''\<close> or \<open>''//''\<close>) and
  its components. \<open>Path\<close> is the constructor applied to a \<open>str\<close>: the root is
  read off the leading slashes, the rest is split at \<open>/\<close>, and empty components and
  \<open>.\<close> are dropped.
\<close>

datatype path = PosixPath (root: string) (names: "string list")

fun split_sep :: "string \<Rightarrow> string list" where
  "split_sep [] = [[]]"
| "split_sep (c # cs) =
     (if c = CHR ''/'' then [] # split_sep cs
      else (case split_sep cs of [] \<Rightarrow> [[c]] | w # ws \<Rightarrow> (c # w) # ws))"

definition splitroot :: "string \<Rightarrow> string \<times> string" where
  "splitroot s =
     (let n = length (takeWhile (\<lambda>c. c = CHR ''/'') s);
          rel = dropWhile (\<lambda>c. c = CHR ''/'') s
      in if n = 0 then ('''', rel) else if n = 2 then (''//'', rel) else (''/'', rel))"

definition Path :: "string \<Rightarrow> path" where
  "Path s = (case splitroot s of (r, rel) \<Rightarrow>
     PosixPath r (filter (\<lambda>x. x \<noteq> [] \<and> x \<noteq> ''.'') (split_sep rel)))"

definition is_absolute :: "path \<Rightarrow> bool" where
  "is_absolute p = (root p \<noteq> [])"

text \<open>\<open>a / b\<close>: an absolute right operand replaces the left one.\<close>

definition joinpath :: "path \<Rightarrow> path \<Rightarrow> path" where
  "joinpath a b = (if is_absolute b then b else PosixPath (root a) (names a @ names b))"

definition path_name :: "path \<Rightarrow> string" where
  "path_name p = (if names p = [] then [] else last (names p))"

definition parent :: "path \<Rightarrow> path" where
  "parent p = PosixPath (root p) (butlast (names p))"

definition parts :: "path \<Rightarrow> string list" where
  "parts p = (if root p = [] then names p else root p # names p)"

fun join_sep :: "string list \<Rightarrow> string" where
  "join_sep [] = []"
| "join_sep [x] = x"
| "join_sep (x # y # ys) = x @ ''/'' @ join_sep (y # ys)"

definition as_posix :: "path \<Rightarrow> string" where
  "as_posix p = (if root p = [] \<and> names p = [] then ''.'' else root p @ join_sep (names p))"

text \<open>
  \<open>p.relative_to(other)\<close> raises \<open>ValueError\<close> unless the parts of \<open>other\<close>
  start the parts of \<open>p\<close>; \<open>p.parts[0]\<close> raises \<open>IndexError\<close> on a path with
  no parts. \<open>sorted\<close> orders paths by their parts, strings by code point.
\<close>

definition relative_to :: "path \<Rightarrow> path \<Rightarrow> exn + path" where
  "relative_to p other =
     (if root p = root other \<and> take (length (names other)) (names p) = names other
      then Inr (PosixPath [] (drop (length (names other)) (names p)))
      else Inl ValueError)"

definition first_part :: "path \<Rightarrow> exn + string" where
  "first_part p = (case parts p of [] \<Rightarrow> Inl IndexError | x # _ \<Rightarrow> Inr x)"

definition sorted_paths :: "path list \<Rightarrow> path list" where
  "sorted_paths ps = sort_key parts ps"

text \<open>\<open>Path.suffix\<close>: the last dot of the name and what follows, unless that dot
  starts or ends the name.\<close>

definition rfind_dot :: "string \<Rightarrow> nat option" where
  "rfind_dot s =
     (case filter (\<lambda>i. s ! i = CHR ''.'') (rev [0 ..< length s]) of
        [] \<Rightarrow> None | i # _ \<Rightarrow> Some i)"

definition suffix :: "path \<Rightarrow> string" where
  "suffix p =
     (case rfind_dot (path_name p) of
        None \<Rightarrow> []
      | Some i \<Rightarrow> if 0 < i \<and> i < length (path_name p) - 1 then drop i (path_name p) else [])"

subsection \<open>Values\<close>

text \<open>
  The values the configuration, the layout tree, the files and the resolved tree are
  made of: what \<open>json.loads\<close> builds, \<open>Path\<close> objects, and what pandas hands
  back. Numbers are integers throughout; floating point is not modelled. A
  \<open>DataFrame\<close> read with \<open>index_col=0\<close> is its column labels and its rows, each
  row its label and its cells; a \<open>Series\<close> is a row under the column labels.
\<close>

datatype scalar = SInt int | SStr string

datatype pyval =
    PNone | PBool bool | PInt int | PStr string
  | PList "pyval list" | PDict "(string \<times> pyval) list"
  | PPath path
  | PFrame "string list" "(scalar \<times> scalar list) list"
  | PSeries "(string \<times> scalar) list"

fun of_scalar :: "scalar \<Rightarrow> pyval" where
  "of_scalar (SInt i) = PInt i"
| "of_scalar (SStr s) = PStr s"

text \<open>\<open>Path(x)\<close> takes a \<open>str\<close> or a path; anything else is a \<open>TypeError\<close>.\<close>

fun Path_of :: "pyval \<Rightarrow> exn + path" where
  "Path_of (PStr s) = Inr (Path s)"
| "Path_of (PPath p) = Inr p"
| "Path_of _ = Inl TypeError"

text \<open>\<open>for x in v\<close>: a list gives its elements, a \<open>str\<close> its characters, a
  \<open>dict\<close> its keys, a \<open>DataFrame\<close> and a \<open>Series\<close> their labels (column labels
  and values, which never reach the loops below).\<close>

fun py_iter :: "pyval \<Rightarrow> exn + pyval list" where
  "py_iter (PList xs) = Inr xs"
| "py_iter (PStr s) = Inr (map (\<lambda>c. PStr [c]) s)"
| "py_iter (PDict kvs) = Inr (map (\<lambda>kv. PStr (fst kv)) kvs)"
| "py_iter (PFrame cols rows) = Inr (map PStr cols)"
| "py_iter (PSeries cells) = Inr (map (\<lambda>kv. of_scalar (snd kv)) cells)"
| "py_iter _ = Inl TypeError"

text \<open>\<open>v[0]\<close>.\<close>

fun py_getitem0 :: "pyval \<Rightarrow> exn + pyval" where
  "py_getitem0 (PList []) = Inl IndexError"
| "py_getitem0 (PList (x # xs)) = Inr x"
| "py_getitem0 (PStr []) = Inl IndexError"
| "py_getitem0 (PStr (c # cs)) = Inr (PStr [c])"
| "py_getitem0 (PDict kvs) = Inl KeyError"
| "py_getitem0 (PFrame cols rows) = Inl KeyError"
| "py_getitem0 (PSeries cells) = Inl KeyError"
| "py_getitem0 _ = Inl TypeError"

text \<open>\<open>v[k]\<close> for a \<open>str\<close> key \<open>k\<close>, and \<open>k in v\<close> for a \<open>dict\<close>.\<close>

fun py_getitem :: "pyval \<Rightarrow> string \<Rightarrow> exn + pyval" where
  "py_getitem (PDict kvs) k = (case map_of kvs k of None \<Rightarrow> Inl KeyError | Some v \<Rightarrow> Inr v)"
| "py_getitem (PFrame cols rows) k = Inl KeyError"
| "py_getitem (PSeries cells) k =
     (case map_of cells k of None \<Rightarrow> Inl KeyError | Some v \<Rightarrow> Inr (of_scalar v))"
| "py_getitem _ k = Inl TypeError"

definition has_key :: "(string \<times> pyval) list \<Rightarrow> string \<Rightarrow> bool" where
  "has_key kvs k = (map_of kvs k \<noteq> None)"

text \<open>Truth value (\<open>not v\<close>, \<open>if v\<close>); a \<open>DataFrame\<close> or a \<open>Series\<close> has none
  (\<open>ValueError\<close>).\<close>

fun truthy :: "pyval \<Rightarrow> exn + bool" where
  "truthy PNone = Inr False"
| "truthy (PBool b) = Inr b"
| "truthy (PInt i) = Inr (i \<noteq> 0)"
| "truthy (PStr s) = Inr (s \<noteq> [])"
| "truthy (PList xs) = Inr (xs \<noteq> [])"
| "truthy (PDict kvs) = Inr (kvs \<noteq> [])"
| "truthy (PPath p) = Inr True"
| "truthy (PFrame cols rows) = Inl ValueError"
| "truthy (PSeries cells) = Inl ValueError"

text \<open>\<open>xs[start:stop]\<close> with Python's treatment of negative and out-of-range bounds.\<close>

definition slice_index :: "nat \<Rightarrow> int \<Rightarrow> nat" where
  "slice_index n i = (if i < 0 then nat (max 0 (i + int n)) else min (nat i) n)"

definition py_slice :: "'a list \<Rightarrow> int \<Rightarrow> int \<Rightarrow> 'a list" where
  "py_slice xs start stop =
     (let s = slice_index (length xs) start; e = slice_index (length xs) stop
      in take (e - s) (drop s xs))"

subsection \<open>The world outside the process\<close>

text \<open>
  What the file system answers. \<open>path_exists\<close> is \<open>Path.exists()\<close>: \<open>Inr True\<close>,
  \<open>Inr False\<close> (no such entry), or the \<open>OSError\<close> the underlying \<open>stat\<close> raises
  for any other failure (a directory on the way that may not be searched, for one).
  \<open>iterdir\<close> and \<open>rglob\<close> are the listings, in the order the system yields them;
  \<open>read_json\<close>, \<open>read_csv\<close> and \<open>read_text\<close> are the parsed contents of a file
  (\<open>json.load\<close>, \<open>pd.read_csv(index_col=0)\<close>, \<open>f.read()\<close>). \<open>mkdir_error\<close>
  and \<open>write_error\<close> say where creating a directory or opening a file for writing
  fails. \<open>home\<close> is \<open>Path.home()\<close>, and \<open>log_records\<close> collects the records handed to
  the logger.
\<close>

type_synonym exists_fn = "path \<Rightarrow> exn + bool"

record world =
  path_exists :: exists_fn
  iterdir :: "path \<Rightarrow> exn + path list"
  rglob :: "path \<Rightarrow> string \<Rightarrow> exn + path list"
  read_json :: "path \<Rightarrow> exn + pyval"
  read_csv :: "path \<Rightarrow> exn + (string list \<times> (scalar \<times> scalar list) list)"
  read_text :: "path \<Rightarrow> exn + string"
  mkdir_error :: "path \<Rightarrow> exn option"
  write_error :: "path \<Rightarrow> exn option"
  home :: path
  log_records :: "string list"

definition logger :: "string \<Rightarrow> world \<Rightarrow> world" where
  "logger msg w = w\<lparr>log_records := log_records w @ [msg]\<rparr>"

section \<open>layout\_decode.get\_first\_path\_exists\<close>

text \<open>
  The loop over the candidates, then the statement after the loop:
  \<open>return path_candidates[0]\<close>, an \<open>IndexError\<close> on the empty list. Inside the
  loop \<open>Path(path)\<close> raises \<open>TypeError\<close> on a candidate that is no \<open>str\<close> and
  no path.
\<close>

definition candidate_full_path :: "path \<Rightarrow> pyval \<Rightarrow> exn + path" where
  "candidate_full_path sample_folder c =
     bind_exn (Path_of c) (\<lambda>full_path.
       Inr (if \<not> is_absolute full_path then joinpath sample_folder full_path else full_path))"

fun first_existing :: "exists_fn \<Rightarrow> path \<Rightarrow> pyval list \<Rightarrow> exn + path option" where
  "first_existing ex sample_folder [] = Inr None"
| "first_existing ex sample_folder (c # cs) =
     bind_exn (candidate_full_path sample_folder c) (\<lambda>full_path.
       bind_exn (ex full_path) (\<lambda>found.
         if found then Inr (Some full_path) else first_existing ex sample_folder cs))"

definition get_first_path_exists :: "exists_fn \<Rightarrow> pyval \<Rightarrow> path \<Rightarrow> exn + pyval" where
  "get_first_path_exists ex path_candidates sample_folder =
     bind_exn (py_iter path_candidates) (\<lambda>cs.
       bind_exn (first_existing ex sample_folder cs) (\<lambda>r.
         case r of Some full_path \<Rightarrow> Inr (PPath full_path)
                 | None \<Rightarrow> py_getitem0 path_candidates))"

section \<open>layout\_decode.load\_file\<close>

text \<open>
  The contents of a file, chosen by its suffix. The \<open>lru_cache\<close> around the function
  is not modelled: within one world every call with the same path reads the same
  contents.
\<close>

definition load_file :: "world \<Rightarrow> path \<Rightarrow> exn + pyval" where
  "load_file w filepath =
     (if suffix filepath = ''.json'' then read_json w filepath
      else if suffix filepath = ''.csv''
        then bind_exn (read_csv w filepath) (\<lambda>(cols, rows). Inr (PFrame cols rows))
      else if suffix filepath = ''.txt''
        then bind_exn (read_text w filepath) (\<lambda>s. Inr (PStr s))
      else Inl NotImplementedError)"

section \<open>layout\_decode.load\_layout\_files\<close>

text \<open>
  \<open>d.get(k, None)\<close> on the value reached so far: a \<open>dict\<close> answers, with \<open>None\<close>
  for a key it does not hold and \<open>TypeError\<close> for a key that cannot be hashed;
  the other values a JSON file holds have no \<open>get\<close> (\<open>AttributeError\<close>).
\<close>

fun py_get :: "pyval \<Rightarrow> pyval \<Rightarrow> exn + pyval" where
  "py_get (PDict kvs) (PStr k) = Inr (case map_of kvs k of None \<Rightarrow> PNone | Some v \<Rightarrow> v)"
| "py_get (PDict kvs) (PList xs) = Inl TypeError"
| "py_get (PDict kvs) (PDict xs) = Inl TypeError"
| "py_get (PDict kvs) k = Inr PNone"
| "py_get v k = Inl AttributeError"

text \<open>
  \<open>v.loc[k]\<close>, label lookup as pandas documents it: a label that the index does not
  hold raises \<open>KeyError\<close>; a label held once selects a row of a \<open>DataFrame\<close> (a
  \<open>Series\<close>) or a cell of a \<open>Series\<close>; a label held several times selects all
  its rows or cells. Labels are strings and integers; any other key finds nothing.
  A value that is no \<open>DataFrame\<close> and no \<open>Series\<close> has no \<open>loc\<close>.
\<close>

fun label_of :: "pyval \<Rightarrow> scalar option" where
  "label_of (PStr s) = Some (SStr s)"
| "label_of (PInt i) = Some (SInt i)"
| "label_of v = None"

fun py_loc :: "pyval \<Rightarrow> pyval \<Rightarrow> exn + pyval" where
  "py_loc (PFrame cols rows) k =
     (case label_of k of
        None \<Rightarrow> Inl KeyError
      | Some l \<Rightarrow>
          (case filter (\<lambda>r. fst r = l) rows of
             [] \<Rightarrow> Inl KeyError
           | [r] \<Rightarrow> Inr (PSeries (zip cols (snd r)))
           | rs \<Rightarrow> Inr (PFrame cols rs)))"
| "py_loc (PSeries cells) k =
     (case k of
        PStr s \<Rightarrow>
          (case filter (\<lambda>c. fst c = s) cells of
             [] \<Rightarrow> Inl KeyError
           | [c] \<Rightarrow> Inr (of_scalar (snd c))
           | cs \<Rightarrow> Inr (PSeries cs))
      | _ \<Rightarrow> Inl KeyError)"
| "py_loc v k = Inl AttributeError"

text \<open>The two loops over \<open>indices\<close>.\<close>

fun dict_chain :: "pyval \<Rightarrow> pyval list \<Rightarrow> exn + pyval" where
  "dict_chain to_return [] = Inr to_return"
| "dict_chain to_return (index_key # indices) =
     bind_exn (py_get to_return index_key) (\<lambda>r.
       if r = PNone then Inr PNone else dict_chain r indices)"

fun loc_chain :: "pyval \<Rightarrow> pyval list \<Rightarrow> exn + pyval" where
  "loc_chain to_return [] = Inr to_return"
| "loc_chain to_return (index_key # indices) =
     bind_exn (py_loc to_return index_key) (\<lambda>r. loc_chain r indices)"

text \<open>\<open>results_folder / sample_name\<close>; \<open>results_folder\<close> may be \<open>None\<close>.\<close>

definition sample_dir_of :: "path option \<Rightarrow> string \<Rightarrow> exn + path" where
  "sample_dir_of results_dir sample_name =
     (case results_dir of None \<Rightarrow> Inl TypeError | Some rf \<Rightarrow> Inr (joinpath rf (Path sample_name)))"

definition dict_get :: "(string \<times> pyval) list \<Rightarrow> string \<Rightarrow> pyval \<Rightarrow> pyval" where
  "dict_get kvs k dflt = (case map_of kvs k of None \<Rightarrow> dflt | Some v \<Rightarrow> v)"

text \<open>The part of the function after \<open># Load contents\<close>, for a \<open>dict\<close> node whose
  \<open>load_contents\<close> is true.\<close>

definition load_contents :: "world \<Rightarrow> (string \<times> pyval) list \<Rightarrow> string \<Rightarrow> path option \<Rightarrow> exn + pyval" where
  "load_contents w kvs sample_name results_dir =
     (if \<not> has_key kvs ''load_path'' then Inl ValueError
      else
        bind_exn (Path_of (dict_get kvs ''load_path'' PNone)) (\<lambda>p.
        bind_exn (if \<not> is_absolute p
                  then bind_exn (sample_dir_of results_dir sample_name) (\<lambda>sd. Inr (joinpath sd p))
                  else Inr p) (\<lambda>load_path.
        bind_exn (path_exists w load_path) (\<lambda>found.
        if \<not> found then Inl FileNotFoundError
        else
          bind_exn (load_file w load_path) (\<lambda>file_contents.
          let indices = dict_get kvs ''indices'' PNone in
          if indices = PNone \<or> indices = PList [] then Inr file_contents
          else
            (case file_contents of
               PDict d \<Rightarrow>
                 if d = [] then Inr PNone
                 else bind_exn (py_iter indices) (dict_chain file_contents)
             | PFrame cols rows \<Rightarrow>
                 if rows = [] \<or> cols = [] then Inr PNone
                 else bind_exn (py_iter indices) (loc_chain file_contents)
             | _ \<Rightarrow> Inl TypeError))))))"

definition is_container :: "pyval \<Rightarrow> bool" where
  "is_container v = (case v of PList xs \<Rightarrow> True | PDict kvs \<Rightarrow> True | _ \<Rightarrow> False)"

text \<open>
  The traversal. \<open>load_list\<close> is the list comprehension and \<open>load_items\<close> the
  \<open>dict\<close> comprehension; both stop at the first exception.
\<close>

fun load_layout_files :: "world \<Rightarrow> pyval \<Rightarrow> string \<Rightarrow> path option \<Rightarrow> exn + pyval"
  and load_list :: "world \<Rightarrow> pyval list \<Rightarrow> string \<Rightarrow> path option \<Rightarrow> exn + pyval list"
  and load_items ::
    "world \<Rightarrow> (string \<times> pyval) list \<Rightarrow> string \<Rightarrow> path option \<Rightarrow> exn + (string \<times> pyval) list"
where
  "load_layout_files w (PList ds) sample_name results_dir =
     bind_exn (load_list w ds sample_name results_dir) (\<lambda>rs. Inr (PList rs))"
| "load_layout_files w (PDict kvs) sample_name results_dir =
     (if has_key kvs ''first_path_exists''
      then bind_exn (sample_dir_of results_dir sample_name) (\<lambda>sd.
             get_first_path_exists (path_exists w) (dict_get kvs ''first_path_exists'' PNone) sd)
      else
        bind_exn (truthy (dict_get kvs ''load_contents'' (PBool False))) (\<lambda>lc.
          if \<not> lc
          then bind_exn (load_items w kvs sample_name results_dir) (\<lambda>items. Inr (PDict items))
          else load_contents w kvs sample_name results_dir))"
| "load_layout_files w v sample_name results_dir = Inl TypeError"
| "load_list w [] sample_name results_dir = Inr []"
| "load_list w (d # ds) sample_name results_dir =
     bind_exn (load_layout_files w d sample_name results_dir) (\<lambda>r.
       bind_exn (load_list w ds sample_name results_dir) (\<lambda>rs. Inr (r # rs)))"
| "load_items w [] sample_name results_dir = Inr []"
| "load_items w ((k, v) # kvs) sample_name results_dir =
     bind_exn (if is_container v then load_layout_files w v sample_name results_dir else Inr v)
       (\<lambda>r. bind_exn (load_items w kvs sample_name results_dir) (\<lambda>rs. Inr ((k, r) # rs)))"

section \<open>hashlib.sha256\<close>

text \<open>
  \<open>sha256_hexdigest s\<close> is \<open>hashlib.sha256(s.encode()).hexdigest()\<close>: SHA-256 as
  FIPS 180-4 defines it, over the bytes of the string, written as 64 lower-case
  hexadecimal digits. Bytes are integers from 0 to 255.
\<close>

definition rotr :: "nat \<Rightarrow> 32 word \<Rightarrow> 32 word" where
  "rotr n x = drop_bit n x OR push_bit (32 - n) x"

definition Ch :: "32 word \<Rightarrow> 32 word \<Rightarrow> 32 word \<Rightarrow> 32 word" where
  "Ch x y z = (x AND y) XOR (NOT x AND z)"

definition Maj :: "32 word \<Rightarrow> 32 word \<Rightarrow> 32 word \<Rightarrow> 32 word" where
  "Maj x y z = (x AND y) XOR (x AND z) XOR (y AND z)"

definition big_sigma0 :: "32 word \<Rightarrow> 32 word" where
  "big_sigma0 x = rotr 2 x XOR rotr 13 x XOR rotr 22 x"

definition big_sigma1 :: "32 word \<Rightarrow> 32 word" where
  "big_sigma1 x = rotr 6 x XOR rotr 11 x XOR rotr 25 x"

definition small_sigma0 :: "32 word \<Rightarrow> 32 word" where
  "small_sigma0 x = rotr 7 x XOR rotr 18 x XOR drop_bit 3 x"

definition small_sigma1 :: "32 word \<Rightarrow> 32 word" where
  "small_sigma1 x = rotr 17 x XOR rotr 19 x XOR drop_bit 10 x"

text \<open>
  The constants, as the standard describes them: the first thirty-two bits of the
  fractional parts of the cube roots of the first sixty-four primes, and of the square
  roots of the first eight. \<open>root_between k n lo hi\<close> is the integer \<open>k\<close>-th root
  of \<open>n\<close>, searched between \<open>lo\<close> and \<open>hi\<close>.
\<close>

function root_between :: "nat \<Rightarrow> int \<Rightarrow> int \<Rightarrow> int \<Rightarrow> int" where
  "root_between k n lo hi =
     (if hi \<le> lo + 1 then lo
      else let mid = (lo + hi) div 2
           in if mid ^ k \<le> n then root_between k n mid hi else root_between k n lo mid)"
  by pat_completeness auto
termination
  by (relation "measure (\<lambda>(k, n, lo, hi). nat (hi - lo))") auto

declare root_between.simps [simp del]

definition fraction_bits :: "nat \<Rightarrow> int \<Rightarrow> 32 word" where
  "fraction_bits k p = of_int (root_between k (p * 2 ^ (32 * k)) 0 (2 ^ 36))"

definition first_primes :: "int list" where
  "first_primes =
     [2, 3, 5, 7, 11, 13, 17, 19, 23, 29, 31, 37, 41, 43, 47, 53, 59, 61, 67, 71, 73, 79, 83,
      89, 97, 101, 103, 107, 109, 113, 127, 131, 137, 139, 149, 151, 157, 163, 167, 173, 179,
      181, 191, 193, 197, 199, 211, 223, 227, 229, 233, 239, 241, 251, 257, 263, 269, 271,
      277, 281, 283, 293, 307, 311]"

definition sha256_K :: "32 word list" where
  "sha256_K = map (fraction_bits 3) first_primes"

definition sha256_H0 :: "32 word list" where
  "sha256_H0 = map (fraction_bits 2) (take 8 first_primes)"

text \<open>The message schedule, newest word first: sixteen words grow to sixty-four.\<close>

fun schedule :: "nat \<Rightarrow> 32 word list \<Rightarrow> 32 word list" where
  "schedule 0 ws = ws"
| "schedule (Suc n) ws =
     schedule n ((small_sigma1 (ws ! 1) + ws ! 6 + small_sigma0 (ws ! 14) + ws ! 15) # ws)"

fun rounds :: "32 word list \<Rightarrow> 32 word list \<Rightarrow> 32 word list \<Rightarrow> 32 word list" where
  "rounds (k # ks) (w # ws) [a, b, c, d, e, f, g, h] =
     (let t1 = h + big_sigma1 e + Ch e f g + k + w; t2 = big_sigma0 a + Maj a b c
      in rounds ks ws [t1 + t2, a, b, c, d + t1, e, f, g])"
| "rounds ks ws s = s"

definition be32 :: "int list \<Rightarrow> 32 word" where
  "be32 bs = of_int (foldl (\<lambda>acc b. acc * 256 + b) 0 bs)"

fun words_of_bytes :: "int list \<Rightarrow> 32 word list" where
  "words_of_bytes (a # b # c # d # r) = be32 [a, b, c, d] # words_of_bytes r"
| "words_of_bytes r = []"

definition compress :: "32 word list \<Rightarrow> int list \<Rightarrow> 32 word list" where
  "compress hs block =
     map2 (+) hs (rounds sha256_K (rev (schedule 48 (rev (words_of_bytes block)))) hs)"

function sha256_blocks :: "32 word list \<Rightarrow> int list \<Rightarrow> 32 word list" where
  "sha256_blocks hs bs =
     (if length bs < 64 then hs else sha256_blocks (compress hs (take 64 bs)) (drop 64 bs))"
  by pat_completeness auto
termination
  by (relation "measure (\<lambda>(hs, bs). length bs)") auto

declare sha256_blocks.simps [simp del]

definition be_bytes :: "nat \<Rightarrow> int \<Rightarrow> int list" where
  "be_bytes k n = map (\<lambda>i. (n div 256 ^ (k - 1 - i)) mod 256) [0 ..< k]"

definition sha256_pad :: "int list \<Rightarrow> int list" where
  "sha256_pad m =
     m @ [128] @ replicate ((119 - length m mod 64) mod 64) 0 @ be_bytes 8 (8 * int (length m))"

definition hexdigits :: string where
  "hexdigits = ''0123456789abcdef''"

definition hexchar :: "int \<Rightarrow> char" where
  "hexchar d = hexdigits ! nat d"

definition hex_byte :: "int \<Rightarrow> string" where
  "hex_byte b = [hexchar (b div 16), hexchar (b mod 16)]"

definition sha256_hexdigest :: "string \<Rightarrow> string" where
  "sha256_hexdigest s =
     concat (map (\<lambda>w. concat (map hex_byte (be_bytes 4 (uint w))))
       (sha256_blocks sha256_H0 (sha256_pad (map of_char s))))"

section \<open>json and str.replace\<close>

text \<open>
  \<open>json.dumps\<close> with its defaults: separators \<open>, \<close> and \<open>: \<close>, and
  \<open>ensure_ascii\<close>, which writes every character outside the printable ASCII range,
  the quote and the backslash as an escape. A path, a \<open>DataFrame\<close> and a
  \<open>Series\<close> cannot be serialised (\<open>TypeError\<close>).
\<close>

definition json_escape_char :: "char \<Rightarrow> string" where
  "json_escape_char c =
     (if c = CHR 0x22 then [CHR 0x5C, CHR 0x22]
      else if c = CHR 0x5C then [CHR 0x5C, CHR 0x5C]
      else if c = CHR 0x0A then [CHR 0x5C, CHR ''n'']
      else if c = CHR 0x0D then [CHR 0x5C, CHR ''r'']
      else if c = CHR 0x09 then [CHR 0x5C, CHR ''t'']
      else if c = CHR 0x08 then [CHR 0x5C, CHR ''b'']
      else if c = CHR 0x0C then [CHR 0x5C, CHR ''f'']
      else if (of_char c :: nat) < 32 \<or> 126 < (of_char c :: nat)
        then [CHR 0x5C, CHR ''u'', CHR ''0'', CHR ''0''] @ hex_byte (of_char c)
      else [c])"

definition json_quote :: "string \<Rightarrow> string" where
  "json_quote s = CHR 0x22 # concat (map json_escape_char s) @ [CHR 0x22]"

fun is_json :: "pyval \<Rightarrow> bool" where
  "is_json (PList xs) = list_all is_json xs"
| "is_json (PDict kvs) = list_all (\<lambda>kv. is_json (snd kv)) kvs"
| "is_json (PPath p) = False"
| "is_json (PFrame cols rows) = False"
| "is_json (PSeries cells) = False"
| "is_json v = True"

fun encode :: "pyval \<Rightarrow> string"
  and encode_list :: "pyval list \<Rightarrow> string"
  and encode_items :: "(string \<times> pyval) list \<Rightarrow> string"
where
  "encode PNone = ''null''"
| "encode (PBool b) = (if b then ''true'' else ''false'')"
| "encode (PInt i) = str_of_int i"
| "encode (PStr s) = json_quote s"
| "encode (PList xs) = ''['' @ encode_list xs @ '']''"
| "encode (PDict kvs) = ''{'' @ encode_items kvs @ ''}''"
| "encode (PPath p) = []"
| "encode (PFrame cols rows) = []"
| "encode (PSeries cells) = []"
| "encode_list [] = []"
| "encode_list [x] = encode x"
| "encode_list (x # y # ys) = encode x @ '', '' @ encode_list (y # ys)"
| "encode_items [] = []"
| "encode_items [(k, v)] = json_quote k @ '': '' @ encode v"
| "encode_items ((k, v) # kv # kvs) =
     json_quote k @ '': '' @ encode v @ '', '' @ encode_items (kv # kvs)"

definition json_dumps :: "pyval \<Rightarrow> exn + string" where
  "json_dumps v = (if is_json v then Inr (encode v) else Inl TypeError)"

text \<open>\<open>s.replace(old, new)\<close>: the occurrences of \<open>old\<close> found from left to right,
  none overlapping the one before.\<close>

function py_replace :: "string \<Rightarrow> string \<Rightarrow> string \<Rightarrow> string" where
  "py_replace old new s =
     (if old = [] then new @ concat (map (\<lambda>c. c # new) s)
      else if s = [] then []
      else if take (length old) s = old then new @ py_replace old new (drop (length old) s)
      else hd s # py_replace old new (tl s))"
  by pat_completeness auto
termination
  by (relation "measure (\<lambda>(old, new, s). length s)") auto

declare py_replace.simps [simp del]

text \<open>
  \<open>json.loads\<close>, the decoder in its strict default. The functions return the value
  read and the text after it. \<open>NotModelled\<close> marks the texts whose value lies
  outside the values above (a number with a fraction or an exponent, \<open>NaN\<close>, an
  infinity, an escaped character beyond code point 255): there the model gives no answer.
  The descent is bounded by the length of the text; the interpreter's own recursion
  limit is not modelled.
\<close>

definition is_ws :: "char \<Rightarrow> bool" where
  "is_ws c \<longleftrightarrow> c = CHR '' '' \<or> c = CHR 0x09 \<or> c = CHR 0x0A \<or> c = CHR 0x0D"

definition skip_ws :: "string \<Rightarrow> string" where
  "skip_ws s = dropWhile is_ws s"

definition is_digit :: "char \<Rightarrow> bool" where
  "is_digit c \<longleftrightarrow> CHR ''0'' \<le> c \<and> c \<le> CHR ''9''"

definition digit_val :: "char \<Rightarrow> nat" where
  "digit_val c = of_char c - 48"

definition hex_val :: "char \<Rightarrow> nat option" where
  "hex_val c =
     (if is_digit c then Some (of_char c - 48)
      else if CHR ''a'' \<le> c \<and> c \<le> CHR ''f'' then Some (of_char c - 87)
      else if CHR ''A'' \<le> c \<and> c \<le> CHR ''F'' then Some (of_char c - 55)
      else None)"

definition hex4_val :: "string \<Rightarrow> nat option" where
  "hex4_val s =
     (case map hex_val s of
        [Some a, Some b, Some c, Some d] \<Rightarrow> Some (((a * 16 + b) * 16 + c) * 16 + d)
      | _ \<Rightarrow> None)"

definition unescape :: "char \<Rightarrow> char option" where
  "unescape e =
     (if e = CHR 0x22 then Some (CHR 0x22)
      else if e = CHR 0x5C then Some (CHR 0x5C)
      else if e = CHR ''/'' then Some (CHR ''/'')
      else if e = CHR ''b'' then Some (CHR 0x08)
      else if e = CHR ''f'' then Some (CHR 0x0C)
      else if e = CHR ''n'' then Some (CHR 0x0A)
      else if e = CHR ''r'' then Some (CHR 0x0D)
      else if e = CHR ''t'' then Some (CHR 0x09)
      else None)"

text \<open>The characters of a string, read after its opening quote.\<close>

function parse_chars :: "string \<Rightarrow> exn + string \<times> string" where
  "parse_chars s =
     (case s of
        [] \<Rightarrow> Inl JSONDecodeError
      | c # cs \<Rightarrow>
          if c = CHR 0x22 then Inr ([], cs)
          else if c = CHR 0x5C then
            (case cs of
               [] \<Rightarrow> Inl JSONDecodeError
             | e # r \<Rightarrow>
                 if e = CHR ''u'' then
                   (case hex4_val (take 4 r) of
                      None \<Rightarrow> Inl JSONDecodeError
                    | Some n \<Rightarrow>
                        if n < 256
                        then bind_exn (parse_chars (drop 4 r)) (\<lambda>(str, rest).
                               Inr (char_of n # str, rest))
                        else Inl NotModelled)
                 else
                   (case unescape e of
                      None \<Rightarrow> Inl JSONDecodeError
                    | Some ch \<Rightarrow> bind_exn (parse_chars r) (\<lambda>(str, rest). Inr (ch # str, rest))))
          else if (of_char c :: nat) < 32 then Inl JSONDecodeError
          else bind_exn (parse_chars cs) (\<lambda>(str, rest). Inr (c # str, rest)))"
  by pat_completeness auto
termination
  by (relation "measure length") auto

declare parse_chars.simps [simp del]

text \<open>A number: an optional minus, then \<open>0\<close> or a digit sequence that does not
  start with \<open>0\<close>; a fraction or an exponent after it makes it a float.\<close>

definition nat_of_digits :: "string \<Rightarrow> nat" where
  "nat_of_digits ds = foldl (\<lambda>a d. 10 * a + digit_val d) 0 ds"

definition float_follows :: "string \<Rightarrow> bool" where
  "float_follows r =
     (case r of
        [] \<Rightarrow> False
      | c # r1 \<Rightarrow>
          if c = CHR ''.'' then (case r1 of [] \<Rightarrow> False | d # r2 \<Rightarrow> is_digit d)
          else if c = CHR ''e'' \<or> c = CHR ''E'' then
            (case r1 of
               [] \<Rightarrow> False
             | d # r2 \<Rightarrow>
                 if d = CHR ''+'' \<or> d = CHR ''-''
                 then (case r2 of [] \<Rightarrow> False | d' # r3 \<Rightarrow> is_digit d')
                 else is_digit d)
          else False)"

definition parse_number :: "string \<Rightarrow> exn + pyval \<times> string" where
  "parse_number s =
     (let neg = (s \<noteq> [] \<and> hd s = CHR ''-'');
          body = (if neg then tl s else s);
          ds = (if body \<noteq> [] \<and> hd body = CHR ''0'' then ''0'' else takeWhile is_digit body);
          r = drop (length ds) body
      in if ds = [] then
           (if take 3 s = ''NaN'' \<or> take 8 s = ''Infinity'' \<or> take 9 s = ''-Infinity''
            then Inl NotModelled else Inl JSONDecodeError)
         else if float_follows r then Inl NotModelled
         else Inr (PInt (if neg then - int (nat_of_digits ds) else int (nat_of_digits ds)), r))"

text \<open>\<open>dict(pairs)\<close>: a key met again keeps its place and takes the later value.\<close>

fun dict_set :: "string \<Rightarrow> pyval \<Rightarrow> (string \<times> pyval) list \<Rightarrow> (string \<times> pyval) list" where
  "dict_set k v [] = [(k, v)]"
| "dict_set k v (kv # kvs) = (if fst kv = k then (k, v) # kvs else kv # dict_set k v kvs)"

definition dict_of_pairs :: "(string \<times> pyval) list \<Rightarrow> (string \<times> pyval) list" where
  "dict_of_pairs pairs = foldl (\<lambda>d kv. dict_set (fst kv) (snd kv) d) [] pairs"

fun parse_value :: "nat \<Rightarrow> string \<Rightarrow> exn + pyval \<times> string"
  and parse_elems :: "nat \<Rightarrow> string \<Rightarrow> exn + pyval list \<times> string"
  and parse_members :: "nat \<Rightarrow> string \<Rightarrow> exn + (string \<times> pyval) list \<times> string"
where
  "parse_value 0 s = Inl RecursionError"
| "parse_value (Suc n) s =
     (if s = [] then Inl JSONDecodeError
      else if hd s = CHR 0x22 then
        bind_exn (parse_chars (tl s)) (\<lambda>(str, rest). Inr (PStr str, rest))
      else if hd s = CHR ''{'' then
        (if take 1 (skip_ws (tl s)) = ''}'' then Inr (PDict [], tl (skip_ws (tl s)))
         else bind_exn (parse_members n (skip_ws (tl s))) (\<lambda>(pairs, rest).
                Inr (PDict (dict_of_pairs pairs), rest)))
      else if hd s = CHR ''['' then
        (if take 1 (skip_ws (tl s)) = '']'' then Inr (PList [], tl (skip_ws (tl s)))
         else bind_exn (parse_elems n (skip_ws (tl s))) (\<lambda>(vs, rest). Inr (PList vs, rest)))
      else if take 4 s = ''null'' then Inr (PNone, drop 4 s)
      else if take 4 s = ''true'' then Inr (PBool True, drop 4 s)
      else if take 5 s = ''false'' then Inr (PBool False, drop 5 s)
      else parse_number s)"
| "parse_elems 0 s = Inl RecursionError"
| "parse_elems (Suc n) s =
     bind_exn (parse_value n s) (\<lambda>(v, rest).
       if take 1 (skip_ws rest) = '','' then
         bind_exn (parse_elems n (skip_ws (tl (skip_ws rest)))) (\<lambda>(vs, rest').
           Inr (v # vs, rest'))
       else if take 1 (skip_ws rest) = '']'' then Inr ([v], tl (skip_ws rest))
       else Inl JSONDecodeError)"
| "parse_members 0 s = Inl RecursionError"
| "parse_members (Suc n) s =
     (if take 1 s \<noteq> [CHR 0x22] then Inl JSONDecodeError
      else
        bind_exn (parse_chars (tl s)) (\<lambda>(k, rest).
          if take 1 (skip_ws rest) \<noteq> '':'' then Inl JSONDecodeError
          else
            bind_exn (parse_value n (skip_ws (tl (skip_ws rest)))) (\<lambda>(v, rest').
              if take 1 (skip_ws rest') = '','' then
                bind_exn (parse_members n (skip_ws (tl (skip_ws rest')))) (\<lambda>(pairs, rest'').
                  Inr ((k, v) # pairs, rest''))
              else if take 1 (skip_ws rest') = ''}'' then Inr ([(k, v)], tl (skip_ws rest'))
              else Inl JSONDecodeError)))"

definition json_loads :: "string \<Rightarrow> exn + pyval" where
  "json_loads s =
     bind_exn (parse_value (Suc (length s)) (skip_ws s)) (\<lambda>(v, rest).
       if skip_ws rest = [] then Inr v else Inl JSONDecodeError)"

section \<open>config.GradioConfig\<close>

text \<open>The fields of the configuration object that the modules below read.\<close>

record config =
  results_folder :: "path option"
  layout :: pyval
  thumbnail_path :: pyval
  filter_results_by_existance_of :: "string option"
  filename :: "string option"
  cache_folder :: "path option"

section \<open>layout\_decode.prepare\_layout\_components\<close>

definition placeholder :: string where
  "placeholder = ''${sample_folder_name}''"

definition prepare_layout_components :: "world \<Rightarrow> config \<Rightarrow> string \<Rightarrow> exn + pyval" where
  "prepare_layout_components w cfg folder_name =
     bind_exn (json_dumps (layout cfg)) (\<lambda>text.
       bind_exn (json_loads (py_replace placeholder folder_name text)) (\<lambda>tree.
         load_layout_files w tree folder_name (results_folder cfg)))"

section \<open>Objects, references and the copy of the layout\<close>









section \<open>backend.Backend\<close>

text \<open>
  The attributes of a \<open>Backend\<close>. \<open>all_samples_dirs\<close> is \<open>None\<close> while the
  attribute has not been assigned: reading it then raises \<open>AttributeError\<close>.
\<close>

record backend =
  self_filename :: "string option"
  results_path :: "path option"
  project_root :: path
  self_thumbnail_path :: pyval
  self_filter_results_by_existance_of :: "string option"
  cached_path :: path
  all_samples_dirs :: "path list option"

text \<open>
  \<open>discover_all_samples\<close>. Both early returns leave the object as it is, apart from
  the record handed to the logger. Otherwise the sample folders are computed, the
  cache file is written and the attribute is assigned. A run that ends in an
  exception returns the exception alone.
\<close>

definition filtered_folders :: "path \<Rightarrow> path list \<Rightarrow> exn + path list" where
  "filtered_folders rp matches =
     (let all_samples = sorted_paths matches in
      bind_exn (mapM_exn (\<lambda>p. relative_to p rp) all_samples) (\<lambda>all_samples_rel_path.
        mapM_exn (\<lambda>p. bind_exn (first_part p) (\<lambda>x. Inr (joinpath rp (Path x))))
          all_samples_rel_path))"

definition write_cache :: "path \<Rightarrow> path list \<Rightarrow> world \<Rightarrow> exn + world" where
  "write_cache cp folders w =
     (case write_error w cp of
        Some e \<Rightarrow> Inl e
      | None \<Rightarrow> Inr (w\<lparr>read_json := (read_json w)(cp := Inr (PList (map (\<lambda>p. PStr (as_posix p)) folders))),
                       path_exists := (path_exists w)(cp := Inr True)\<rparr>))"

definition discover_all_samples :: "world \<Rightarrow> backend \<Rightarrow> exn + backend \<times> world" where
  "discover_all_samples w self =
     (case results_path self of
        None \<Rightarrow> Inr (self, logger ''Results path is None'' w)
      | Some rp \<Rightarrow>
          bind_exn (path_exists w rp) (\<lambda>found.
            if \<not> found
            then Inr (self, logger (''Results path does not exist: '' @ as_posix rp) w)
            else
              let w1 = logger (''Loading results from '' @ as_posix rp) w in
              bind_exn
                (case self_filter_results_by_existance_of self of
                   Some pat \<Rightarrow> bind_exn (rglob w1 rp pat) (filtered_folders rp)
                 | None \<Rightarrow> bind_exn (iterdir w1 rp) (\<lambda>children. Inr (sorted_paths children)))
                (\<lambda>all_samples_folders.
                   let w2 = logger (''Found '' @ str_of_nat (length all_samples_folders)
                                     @ '' samples'') w1 in
                   bind_exn (write_cache (cached_path self) all_samples_folders w2) (\<lambda>w3.
                     Inr (self\<lparr>all_samples_dirs := Some all_samples_folders\<rparr>, w3)))))"

text \<open>
  \<open>__init__\<close>: the cache file's path, the cache directory, then the list read
  from the cache file when there is one and discovery when there is none.
\<close>

definition or_empty :: "string option \<Rightarrow> string" where
  "or_empty s = (case s of None \<Rightarrow> [] | Some t \<Rightarrow> if t = [] then [] else t)"

definition mkdir_parents :: "path \<Rightarrow> world \<Rightarrow> exn + world" where
  "mkdir_parents d w =
     (case mkdir_error w d of
        Some e \<Rightarrow> Inl e
      | None \<Rightarrow> Inr (w\<lparr>path_exists := (\<lambda>q.
          if root q = root d \<and> take (length (names q)) (names d) = names q
          then Inr True else path_exists w q)\<rparr>))"

definition cache_path_of :: "world \<Rightarrow> config \<Rightarrow> path" where
  "cache_path_of w cfg =
     (let cache_dir =
            (case cache_folder cfg of
               Some d \<Rightarrow> d
             | None \<Rightarrow> joinpath (joinpath (home w) (Path ''.cache'')) (Path ''gradio_sample_viewer''));
          results_path_hash =
            (case results_folder cfg of
               Some rp \<Rightarrow> sha256_hexdigest
                 (as_posix rp @ or_empty (filter_results_by_existance_of cfg))
             | None \<Rightarrow> ''null'')
      in joinpath cache_dir (Path (results_path_hash @ ''.json'')))"

definition Backend_init :: "world \<Rightarrow> config \<Rightarrow> path \<Rightarrow> exn + backend \<times> world" where
  "Backend_init w cfg proj_root =
     (let self = \<lparr>self_filename = filename cfg, results_path = results_folder cfg,
                  project_root = proj_root, self_thumbnail_path = thumbnail_path cfg,
                  self_filter_results_by_existance_of = filter_results_by_existance_of cfg,
                  cached_path = cache_path_of w cfg, all_samples_dirs = None\<rparr>
      in bind_exn (mkdir_parents (parent (cached_path self)) w) (\<lambda>w1.
           bind_exn (path_exists w1 (cached_path self)) (\<lambda>found.
             if found
             then bind_exn (read_json w1 (cached_path self)) (\<lambda>v.
                    bind_exn (py_iter v) (\<lambda>ps.
                      bind_exn (mapM_exn Path_of ps) (\<lambda>dirs.
                        Inr (self\<lparr>all_samples_dirs := Some dirs\<rparr>, w1))))
             else discover_all_samples w1 self)))"

text \<open>
  \<open>get_samples_metadata\<close>. The \<open>try\<close> block is \<open>samples_metadata_try\<close>; the
  handler catches every exception it raises, hands a record to the logger and
  returns the empty list.
\<close>

record metadata =
  meta_id :: string
  meta_image :: "pyval \<times> string"

definition sample_thumbnail :: "exists_fn \<Rightarrow> pyval \<Rightarrow> path \<Rightarrow> exn + pyval" where
  "sample_thumbnail ex tp sample_dir =
     (case tp of
        PStr s \<Rightarrow> Inr (PStr s)
      | _ \<Rightarrow> bind_exn (py_getitem tp ''first_path_exists'') (\<lambda>candidates.
               get_first_path_exists ex candidates sample_dir))"

definition sample_metadata :: "exists_fn \<Rightarrow> pyval \<Rightarrow> path \<Rightarrow> exn + metadata" where
  "sample_metadata ex tp sample_dir =
     bind_exn (sample_thumbnail ex tp sample_dir) (\<lambda>t.
       Inr \<lparr>meta_id = path_name sample_dir, meta_image = (t, path_name sample_dir)\<rparr>)"

definition samples_metadata_try :: "world \<Rightarrow> backend \<Rightarrow> int \<Rightarrow> int \<Rightarrow> exn + metadata list" where
  "samples_metadata_try w self offset limit =
     (case all_samples_dirs self of
        None \<Rightarrow> Inl AttributeError
      | Some dirs \<Rightarrow>
          mapM_exn (sample_metadata (path_exists w) (self_thumbnail_path self))
            (py_slice dirs offset (offset + limit)))"

definition get_samples_metadata ::
  "world \<Rightarrow> backend \<Rightarrow> int \<Rightarrow> int \<Rightarrow> metadata list \<times> world" where
  "get_samples_metadata w self offset limit =
     (case samples_metadata_try w self offset limit of
        Inl e \<Rightarrow> ([], logger ''Error listing samples'' w)
      | Inr results \<Rightarrow> (results, w))"

section \<open>Vocabulary of the statements\<close>

text \<open>
  A component that \<open>pathlib\<close> keeps as it is: not empty, not \<open>.\<close>, without a
  slash. \<open>below rp m\<close>: the path \<open>m\<close> lies strictly under \<open>rp\<close>, as every path
  that \<open>rp.rglob\<close> yields does. \<open>sample_folder_of rp m\<close> is the entry of \<open>rp\<close> on
  the way to \<open>m\<close>.
\<close>

definition valid_name :: "string \<Rightarrow> bool" where
  "valid_name n \<longleftrightarrow> n \<noteq> [] \<and> n \<noteq> ''.'' \<and> CHR ''/'' \<notin> set n"

definition below :: "path \<Rightarrow> path \<Rightarrow> bool" where
  "below rp m \<longleftrightarrow>
     root m = root rp \<and> length (names rp) < length (names m)
     \<and> take (length (names rp)) (names m) = names rp
     \<and> valid_name (names m ! length (names rp))"

definition sample_folder_of :: "path \<Rightarrow> path \<Rightarrow> path" where
  "sample_folder_of rp m = PosixPath (root rp) (names rp @ [names m ! length (names rp)])"

text \<open>
  A character that \<open>json.dumps\<close> writes as it is: printable ASCII other than the
  quote and the backslash.
\<close>

definition unescaped :: "char \<Rightarrow> bool" where
  "unescaped c \<longleftrightarrow>
     32 \<le> (of_char c :: nat) \<and> (of_char c :: nat) \<le> 126 \<and> c \<noteq> CHR 0x22 \<and> c \<noteq> CHR 0x5C"

text \<open>
  The placeholder replaced in every string of a tree, keys included
  (\<open>subst_tree\<close>), and in the string values alone (\<open>subst_values\<close>).
\<close>

fun subst_tree :: "string \<Rightarrow> pyval \<Rightarrow> pyval" where
  "subst_tree new (PStr s) = PStr (py_replace placeholder new s)"
| "subst_tree new (PList xs) = PList (map (subst_tree new) xs)"
| "subst_tree new (PDict kvs) =
     PDict (map (\<lambda>kv. (py_replace placeholder new (fst kv), subst_tree new (snd kv))) kvs)"
| "subst_tree new v = v"

fun subst_values :: "string \<Rightarrow> pyval \<Rightarrow> pyval" where
  "subst_values new (PStr s) = PStr (py_replace placeholder new s)"
| "subst_values new (PList xs) = PList (map (subst_values new) xs)"
| "subst_values new (PDict kvs) = PDict (map (\<lambda>kv. (fst kv, subst_values new (snd kv))) kvs)"
| "subst_values new v = v"

text \<open>
  Trees. \<open>distinct_keys\<close>: no \<open>dict\<close> holds a key twice, as no Python \<open>dict\<close>
  does. \<open>nodes_only\<close>: every element of a sequence is a sequence or a mapping.
  \<open>layout_tree\<close>: a sequence or a mapping, of JSON values, with both properties.
  \<open>no_file_nodes\<close>: no mapping has the key \<open>first_path_exists\<close> or a true
  \<open>load_contents\<close>. \<open>dollar_free_keys\<close>: no key contains \<open>$\<close>, so none contains
  the placeholder.
\<close>

fun distinct_keys :: "pyval \<Rightarrow> bool" where
  "distinct_keys (PList xs) = list_all distinct_keys xs"
| "distinct_keys (PDict kvs) =
     (distinct (map fst kvs) \<and> list_all (\<lambda>kv. distinct_keys (snd kv)) kvs)"
| "distinct_keys v = True"

fun nodes_only :: "pyval \<Rightarrow> bool" where
  "nodes_only (PList xs) = list_all (\<lambda>x. is_container x \<and> nodes_only x) xs"
| "nodes_only (PDict kvs) = list_all (\<lambda>kv. nodes_only (snd kv)) kvs"
| "nodes_only v = True"

definition layout_tree :: "pyval \<Rightarrow> bool" where
  "layout_tree t \<longleftrightarrow> is_container t \<and> is_json t \<and> distinct_keys t \<and> nodes_only t"

fun no_file_nodes :: "pyval \<Rightarrow> bool" where
  "no_file_nodes (PList xs) = list_all no_file_nodes xs"
| "no_file_nodes (PDict kvs) =
     (\<not> has_key kvs ''first_path_exists''
      \<and> truthy (dict_get kvs ''load_contents'' (PBool False)) = Inr False
      \<and> list_all (\<lambda>kv. no_file_nodes (snd kv)) kvs)"
| "no_file_nodes v = True"

fun dollar_free_keys :: "pyval \<Rightarrow> bool" where
  "dollar_free_keys (PList xs) = list_all dollar_free_keys xs"
| "dollar_free_keys (PDict kvs) =
     list_all (\<lambda>kv. CHR ''$'' \<notin> set (fst kv) \<and> dollar_free_keys (snd kv)) kvs"
| "dollar_free_keys v = True"

text \<open>
  Texts. \<open>delim rest\<close>: what follows a value in a text that \<open>json.dumps\<close> wrote
  (nothing, a comma or a closing bracket). \<open>starts_value s\<close>: the text begins with
  the first character of a value.
\<close>

definition delim :: "string \<Rightarrow> bool" where
  "delim rest \<longleftrightarrow> rest = [] \<or> hd rest = CHR '','' \<or> hd rest = CHR '']'' \<or> hd rest = CHR ''}''"

definition starts_value :: "string \<Rightarrow> bool" where
  "starts_value s \<longleftrightarrow>
     s \<noteq> [] \<and> \<not> is_ws (hd s) \<and> hd s \<noteq> CHR '']'' \<and> hd s \<noteq> CHR ''}''"






text \<open>Worlds used in the examples below.\<close>

definition empty_disk :: exists_fn where
  "empty_disk p = Inr False"

definition results_r :: path where
  "results_r = PosixPath ''/'' [''r'']"

definition sample_a :: path where
  "sample_a = PosixPath ''/'' [''r'', ''a'']"

definition sample_b :: path where
  "sample_b = PosixPath ''/'' [''r'', ''b'']"


definition cache_file :: path where
  "cache_file = PosixPath ''/'' [''cache'', ''list.json'']"

text \<open>A world with nothing on disk, where every listing and every read fails.\<close>

definition bare_world :: world where
  "bare_world =
     \<lparr>path_exists = empty_disk,
      iterdir = (\<lambda>p. Inl (OSError ''ENOENT'')),
      rglob = (\<lambda>p pat. Inr []),
      read_json = (\<lambda>p. Inl FileNotFoundError),
      read_csv = (\<lambda>p. Inl FileNotFoundError),
      read_text = (\<lambda>p. Inl FileNotFoundError),
      mkdir_error = (\<lambda>p. None),
      write_error = (\<lambda>p. None),
      home = PosixPath ''/'' [''home'', ''u''],
      log_records = []\<rparr>"

text \<open>\<open>/r/a/thumb.png\<close> exists; looking at \<open>/r/b/thumb.png\<close> is refused.\<close>

definition denied_b_world :: world where
  "denied_b_world = bare_world\<lparr>path_exists := (\<lambda>p.
     if p = PosixPath ''/'' [''r'', ''a'', ''thumb.png''] then Inr True
     else if p = PosixPath ''/'' [''r'', ''b'', ''thumb.png''] then Inl (OSError ''EACCES'')
     else Inr False)\<rparr>"

text \<open>\<open>/r\<close> exists and \<open>rglob\<close> finds two files under \<open>/r/a\<close> and one under
  \<open>/r/b\<close>.\<close>

definition two_matches_world :: world where
  "two_matches_world = bare_world\<lparr>
     path_exists := (\<lambda>p. Inr (p = results_r)),
     rglob := (\<lambda>p pat. Inr [PosixPath ''/'' [''r'', ''b'', ''x.json''],
                           PosixPath ''/'' [''r'', ''a'', ''y.json''],
                           PosixPath ''/'' [''r'', ''a'', ''x.json'']])\<rparr>"

definition scenario_cfg :: config where
  "scenario_cfg =
     \<lparr>results_folder = Some results_r, layout = PList [], thumbnail_path = PStr ''thumb.png'',
      filter_results_by_existance_of = Some ''meta.json'', filename = None,
      cache_folder = Some (PosixPath ''/'' [''cache''])\<rparr>"

text \<open>\<open>/data/table.csv\<close> is a table with the single row \<open>row1\<close>.\<close>

definition table_csv :: path where
  "table_csv = PosixPath ''/'' [''data'', ''table.csv'']"

definition table_world :: world where
  "table_world = bare_world\<lparr>
     path_exists := (\<lambda>p. Inr (p = table_csv)),
     read_csv := (\<lambda>p. Inr ([''score''], [(SStr ''row1'', [SInt 1])]))\<rparr>"

definition absent_row_node :: pyval where
  "absent_row_node =
     PDict [(''load_contents'', PBool True), (''load_path'', PStr ''/data/table.csv''),
            (''indices'', PList [PStr ''row5''])]"

text \<open>Two layouts.\<close>

definition image_layout :: pyval where
  "image_layout =
     PList [PDict [(''type'', PStr ''Image''), (''value'', PStr ''${sample_folder_name}/a.png'')]]"

definition dropdown_layout :: pyval where
  "dropdown_layout =
     PList [PDict [(''type'', PStr ''Dropdown''), (''choices'', PList [PStr ''x'', PStr ''y''])]]"


definition thumb_first_existing :: pyval where
  "thumb_first_existing = PDict [(''first_path_exists'', PList [PStr ''thumb.png''])]"

definition backend_of :: "pyval \<Rightarrow> path list option \<Rightarrow> backend" where
  "backend_of tp dirs =
     \<lparr>self_filename = None, results_path = Some results_r, project_root = PosixPath [] [],
      self_thumbnail_path = tp, self_filter_results_by_existance_of = None,
      cached_path = cache_file, all_samples_dirs = dirs\<rparr>"

definition filter_backend :: backend where
  "filter_backend =
     (backend_of (PStr ''thumb.png'') None)\<lparr>self_filter_results_by_existance_of := Some ''*.json''\<rparr>"

section \<open>Properties of the path resolver\<close>

lemma bind_exn_simps [simp]:
  "bind_exn (Inl e) f = Inl e"
  "bind_exn (Inr x) f = f x"
  by (simp_all add: bind_exn_def)

lemma bind_exn_eq_Inr:
  "bind_exn m f = Inr y \<longleftrightarrow> (\<exists>x. m = Inr x \<and> f x = Inr y)"
  by (cases m) auto

lemma bind_exn_eq_Inl:
  "bind_exn m f = Inl e \<longleftrightarrow> m = Inl e \<or> (\<exists>x. m = Inr x \<and> f x = Inl e)"
  by (cases m) auto

lemma split_sep_no_slash: "CHR ''/'' \<notin> set s \<Longrightarrow> split_sep s = [s]"
  by (induction s) auto

lemma splitroot_no_slash: "CHR ''/'' \<notin> set s \<Longrightarrow> splitroot s = ([], s)"
  by (cases s) (auto simp: splitroot_def)

lemma Path_single_name:
  "CHR ''/'' \<notin> set s \<Longrightarrow> s \<noteq> [] \<Longrightarrow> s \<noteq> ''.'' \<Longrightarrow> Path s = PosixPath [] [s]"
  by (simp add: Path_def splitroot_no_slash split_sep_no_slash)

lemma first_existing_none:
  "\<forall>c \<in> set cs. \<exists>p. candidate_full_path sf c = Inr p \<and> ex p = Inr False \<Longrightarrow>
   first_existing ex sf cs = Inr None"
  by (induction cs) auto



lemma first_existing_error:
  "first_existing ex sf cs = Inl e \<Longrightarrow>
   \<exists>c \<in> set cs. candidate_full_path sf c = Inl e
      \<or> (\<exists>p. candidate_full_path sf c = Inr p \<and> ex p = Inl e)"
  by (induction cs) (auto simp: bind_exn_eq_Inl split: if_splits)

text \<open>
  \<^bold>\<open>C1\<close> (as the code has it). When no candidate exists, joined with the sample
  folder or as it is when absolute, a non-empty list resolves to its first element
  exactly as the caller wrote it: the statement after the loop returns
  \<open>path_candidates[0]\<close>, not the joined path that the loop tested, and never a
  later candidate.
\<close>

theorem fallback_is_first_candidate_verbatim:
  assumes "cs \<noteq> []"
    and "\<forall>c \<in> set cs. \<exists>p. candidate_full_path sample_folder c = Inr p \<and> ex p = Inr False"
  shows "get_first_path_exists ex (PList cs) sample_folder = Inr (hd cs)"
proof -
  have "first_existing ex sample_folder cs = Inr None"
    using assms(2) by (rule first_existing_none)
  with assms(1) show ?thesis
    by (cases cs) (simp_all add: get_first_path_exists_def)
qed

theorem fallback_is_first_candidate_verbatim_witness:
  "get_first_path_exists empty_disk (PList [PStr ''thumb.png'', PStr ''thumb.jpg'']) sample_a
     = Inr (PStr ''thumb.png'')"
  using fallback_is_first_candidate_verbatim
    [of "[PStr ''thumb.png'', PStr ''thumb.jpg'']" sample_a empty_disk]
  by (simp add: empty_disk_def candidate_full_path_def)

text \<open>
  \<^bold>\<open>C1\<close>, the claim as the specification words it, fails: with nothing on disk,
  the candidate \<open>thumb.png\<close> under \<open>/r/a\<close> comes back as the string
  \<open>thumb.png\<close>, while the path the loop tested was \<open>/r/a/thumb.png\<close>.
\<close>

theorem fallback_not_joined_counterexample:
  "candidate_full_path sample_a (PStr ''thumb.png'')
     = Inr (PosixPath ''/'' [''r'', ''a'', ''thumb.png''])
   \<and> empty_disk (PosixPath ''/'' [''r'', ''a'', ''thumb.png'']) = Inr False
   \<and> get_first_path_exists empty_disk (PList [PStr ''thumb.png'']) sample_a
       = Inr (PStr ''thumb.png'')
   \<and> get_first_path_exists empty_disk (PList [PStr ''thumb.png'']) sample_a
       \<noteq> Inr (PPath (PosixPath ''/'' [''r'', ''a'', ''thumb.png'']))"
  by (simp add: get_first_path_exists_def candidate_full_path_def Path_def splitroot_def
      joinpath_def is_absolute_def empty_disk_def sample_a_def)



section \<open>Properties of pagination\<close>


lemma mapM_exn_all_Inr:
  "\<forall>x \<in> set xs. \<exists>y. f x = Inr y \<Longrightarrow> \<exists>ys. mapM_exn f xs = Inr ys"
  by (induction xs) auto

lemma mapM_exn_some_Inl:
  "x \<in> set xs \<Longrightarrow> f x = Inl e \<Longrightarrow> \<exists>e'. mapM_exn f xs = Inl e'"
proof (induction xs)
  case Nil
  then show ?case by simp
next
  case (Cons a xs)
  show ?case
  proof (cases "f a")
    case (Inl e0)
    then show ?thesis by simp
  next
    case (Inr y)
    with Cons show ?thesis by (cases "mapM_exn f xs") auto
  qed
qed


lemma py_slice_beyond: "int (length xs) \<le> start \<Longrightarrow> py_slice xs start stop = []"
  by (auto simp: py_slice_def slice_index_def Let_def min_def)

text \<open>
  \<^bold>\<open>C4\<close> (as the code has it). The \<open>try\<close> of \<open>get_samples_metadata\<close> encloses the
  whole loop over the page: as soon as resolving one sample of the page raises, the
  handler hands one record to the logger and the call returns the empty list. No
  exception reaches the caller, and no descriptor of that page does either.
\<close>

theorem one_failure_empties_the_page:
  assumes "all_samples_dirs self = Some dirs"
    and "d \<in> set (py_slice dirs offset (offset + limit))"
    and "sample_metadata (path_exists w) (self_thumbnail_path self) d = Inl e"
  shows "get_samples_metadata w self offset limit = ([], logger ''Error listing samples'' w)"
proof -
  from mapM_exn_some_Inl
      [of d _ "sample_metadata (path_exists w) (self_thumbnail_path self)" e, OF assms(2) assms(3)]
    assms(1)
  obtain e' where "samples_metadata_try w self offset limit = Inl e'"
    by (auto simp: samples_metadata_try_def)
  then show ?thesis by (simp add: get_samples_metadata_def)
qed

theorem one_failure_empties_the_page_witness:
  "get_samples_metadata denied_b_world
     (backend_of thumb_first_existing (Some [sample_a, sample_b])) 0 10
   = ([], logger ''Error listing samples'' denied_b_world)"
  using one_failure_empties_the_page
    [of "backend_of thumb_first_existing (Some [sample_a, sample_b])"
        "[sample_a, sample_b]" sample_b 0 10 denied_b_world "OSError ''EACCES''"]
  by (simp add: backend_of_def py_slice_def slice_index_def sample_metadata_def
      sample_thumbnail_def thumb_first_existing_def get_first_path_exists_def
      candidate_full_path_def Path_def splitroot_def joinpath_def is_absolute_def
      denied_b_world_def bare_world_def sample_a_def sample_b_def)

text \<open>
  \<^bold>\<open>C4\<close>, the claim as the specification words it, fails. In a page of two samples
  the first resolves to its descriptor on its own and the second raises; the page
  comes back empty, the first sample's descriptor with it.
\<close>

theorem failure_not_isolated_counterexample:
  "sample_metadata (path_exists denied_b_world) thumb_first_existing sample_a
     = Inr \<lparr>meta_id = ''a'',
            meta_image = (PPath (PosixPath ''/'' [''r'', ''a'', ''thumb.png'']), ''a'')\<rparr>
   \<and> sample_metadata (path_exists denied_b_world) thumb_first_existing sample_b
     = Inl (OSError ''EACCES'')
   \<and> fst (get_samples_metadata denied_b_world
        (backend_of thumb_first_existing (Some [sample_a, sample_b])) 0 10) = []"
  by (simp add: get_samples_metadata_def samples_metadata_try_def backend_of_def
      py_slice_def slice_index_def sample_metadata_def
      sample_thumbnail_def thumb_first_existing_def get_first_path_exists_def
      candidate_full_path_def Path_def splitroot_def joinpath_def is_absolute_def
      path_name_def denied_b_world_def bare_world_def sample_a_def sample_b_def)



section \<open>Properties of the layout traversal\<close>

lemma suffix_table: "suffix table_csv = ''.csv''"
  by (simp add: suffix_def rfind_dot_def path_name_def table_csv_def upt_rec)

lemma Path_table: "Path ''/data/table.csv'' = table_csv"
  by (simp add: Path_def splitroot_def table_csv_def)

text \<open>
  In a mapping, a key that is absent at any position of the chain ends the walk with
  \<open>None\<close>; an empty table does so before any lookup.
\<close>

lemma dict_chain_absent_key:
  "dict_chain v ks1 = Inr (PDict d) \<Longrightarrow> map_of d k = None \<Longrightarrow>
   dict_chain v (ks1 @ PStr k # ks2) = Inr PNone"
proof (induction ks1 arbitrary: v)
  case Nil
  then show ?case by simp
next
  case (Cons a ks1)
  from Cons.prems(1) obtain r where r: "py_get v a = Inr r" "r \<noteq> PNone"
    "dict_chain r ks1 = Inr (PDict d)"
    by (auto simp: bind_exn_eq_Inr split: if_splits)
  with Cons.IH [OF r(3) Cons.prems(2)] show ?case by simp
qed

lemma load_contents_empty_frame:
  assumes "has_key kvs ''load_path''" and "Path_of (dict_get kvs ''load_path'' PNone) = Inr p"
    and "is_absolute p" and "path_exists w p = Inr True"
    and "load_file w p = Inr (PFrame cols rows)" and "rows = [] \<or> cols = []"
    and "dict_get kvs ''indices'' PNone = PList (k # ks)"
  shows "load_contents w kvs sample_name results_dir = Inr PNone"
  using assms by (auto simp: load_contents_def)

text \<open>
  \<^bold>\<open>C2\<close>, at the input where the code leaves the claim. The node loads
  \<open>/data/table.csv\<close>, a table whose only row is \<open>row1\<close>, and asks for \<open>row5\<close>.
  The table is not empty, so the loop runs, and \<open>to_return.loc[index_key]\<close> raises
  \<open>KeyError\<close>: the absent label is an exception, not the absent result.
\<close>

theorem absent_row_raises_KeyError:
  "load_layout_files table_world absent_row_node ''a'' (Some results_r) = Inl KeyError"
  by (simp add: absent_row_node_def has_key_def dict_get_def load_contents_def Path_table
      is_absolute_def load_file_def suffix_table table_world_def bare_world_def)
    (simp add: table_csv_def)

subsection \<open>The copy of the layout and the traversal\<close>




lemma py_replace_Nil: "old \<noteq> [] \<Longrightarrow> py_replace old new [] = []"
  by (simp add: py_replace.simps)

lemma py_replace_hit:
  "old \<noteq> [] \<Longrightarrow> take (length old) (c # s) = old \<Longrightarrow>
   py_replace old new (c # s) = new @ py_replace old new (drop (length old) (c # s))"
  by (subst py_replace.simps) simp

lemma py_replace_miss:
  "old \<noteq> [] \<Longrightarrow> take (length old) (c # s) \<noteq> old \<Longrightarrow>
   py_replace old new (c # s) = c # py_replace old new s"
  by (subst py_replace.simps) simp

lemma placeholder_Cons: "placeholder = CHR ''$'' # ''{sample_folder_name}''"
  by (simp add: placeholder_def)

lemma placeholder_nonempty: "placeholder \<noteq> []"
  by (simp add: placeholder_def)

lemma placeholder_miss: "CHR ''$'' \<noteq> c \<Longrightarrow> take (length placeholder) (c # s) \<noteq> placeholder"
  by (auto simp: placeholder_def)

lemma py_replace_placeholder:
  "py_replace placeholder new (placeholder @ s) = new @ py_replace placeholder new s"
  by (subst py_replace.simps) (simp add: placeholder_nonempty)

lemma replace_no_dollar:
  "CHR ''$'' \<notin> set a \<Longrightarrow>
   py_replace placeholder new (a @ b) = a @ py_replace placeholder new b"
  by (induction a) (simp_all add: py_replace_miss placeholder_nonempty placeholder_miss)

lemma escape_unescaped: "unescaped c \<Longrightarrow> json_escape_char c = [c]"
  by (auto simp: json_escape_char_def unescaped_def)

lemma hexchar_no_dollar: "0 \<le> d \<Longrightarrow> d < 16 \<Longrightarrow> hexchar d \<noteq> CHR ''$''"
proof -
  assume "0 \<le> d" "d < 16"
  then have "nat d < length hexdigits" by (simp add: hexdigits_def)
  then have "hexchar d \<in> set hexdigits" unfolding hexchar_def by (rule nth_mem)
  then show ?thesis by (auto simp: hexdigits_def)
qed

lemma hex_byte_no_dollar: "0 \<le> b \<Longrightarrow> b < 256 \<Longrightarrow> CHR ''$'' \<notin> set (hex_byte b)"
proof -
  assume b: "0 \<le> b" "b < 256"
  then have "0 \<le> b div 16" "b div 16 < 16" "0 \<le> b mod 16" "b mod 16 < 16" by auto
  then have "hexchar (b div 16) \<noteq> CHR ''$''" "hexchar (b mod 16) \<noteq> CHR ''$''"
    by (simp_all add: hexchar_no_dollar)
  then show ?thesis by (auto simp: hex_byte_def)
qed

lemma of_char_int_range: "0 \<le> (of_char c :: int) \<and> (of_char c :: int) < 256"
proof -
  have "(of_char c :: int) = int (of_char c)" by (simp add: of_char_def)
  moreover have "(of_char c :: nat) < 256" by simp
  ultimately show ?thesis by simp
qed

lemma escape_escaped:
  "\<not> unescaped c \<Longrightarrow>
   \<exists>r. json_escape_char c = CHR 0x5C # r \<and> CHR ''$'' \<notin> set r"
  using hex_byte_no_dollar [of "of_char c"] of_char_int_range [of c]
  by (auto simp: json_escape_char_def unescaped_def)

lemma escape_no_quote_head:
  "\<exists>x r. json_escape_char c = x # r \<and> (unescaped c \<and> x = c \<and> r = [] \<or> \<not> unescaped c \<and> x = CHR 0x5C)"
  using escape_escaped [of c] escape_unescaped [of c] by (cases "unescaped c") auto

lemma take_escape_prefix:
  "\<forall>x \<in> set u. unescaped x \<Longrightarrow>
   take (length u) (concat (map json_escape_char s) @ CHR 0x22 # rest) = u \<Longrightarrow>
   take (length u) s = u"
proof (induction u arbitrary: s)
  case Nil
  then show ?case by simp
next
  case (Cons x u)
  from Cons.prems(1) have x: "unescaped x" and u: "\<forall>x \<in> set u. unescaped x" by auto
  show ?case
  proof (cases s)
    case Nil
    with Cons.prems(2) x show ?thesis by (simp add: unescaped_def)
  next
    case (Cons c s')
    show ?thesis
    proof (cases "unescaped c")
      case True
      with Cons.prems(2) Cons Cons.IH [OF u, of s'] show ?thesis
        by (simp add: escape_unescaped)
    next
      case False
      from escape_escaped [OF this] obtain r where "json_escape_char c = CHR 0x5C # r"
        by blast
      with Cons.prems(2) Cons x show ?thesis by (simp add: unescaped_def)
    qed
  qed
qed

lemma placeholder_unescaped: "\<forall>x \<in> set placeholder. unescaped x"
  by (simp add: placeholder_def unescaped_def)

lemma escape_all_unescaped:
  "\<forall>x \<in> set u. unescaped x \<Longrightarrow> concat (map json_escape_char u) = u"
  by (induction u) (simp_all add: escape_unescaped)

lemma replace_escaped_string:
  assumes new: "\<forall>x \<in> set new. unescaped x"
  shows "py_replace placeholder new (concat (map json_escape_char s) @ CHR 0x22 # rest)
     = concat (map json_escape_char (py_replace placeholder new s))
       @ CHR 0x22 # py_replace placeholder new rest"
proof (induction s rule: length_induct)
  case (1 s)
  show ?case
  proof (cases s)
    case Nil
    then show ?thesis
      by (simp add: py_replace_Nil placeholder_nonempty py_replace_miss placeholder_miss)
  next
    case (Cons c s')
    show ?thesis
    proof (cases "take (length placeholder) s = placeholder")
      case True
      define s'' where "s'' = drop (length placeholder) s"
      have s: "s = placeholder @ s''"
        using True by (metis append_take_drop_id s''_def)
      have len: "length s'' < length s"
        using s placeholder_nonempty by (metis length_append length_greater_0_conv less_add_same_cancel2)
      have esc: "concat (map json_escape_char s)
          = placeholder @ concat (map json_escape_char s'')"
        by (subst s) (simp add: escape_all_unescaped [OF placeholder_unescaped])
      have "py_replace placeholder new (concat (map json_escape_char s) @ CHR 0x22 # rest)
          = new @ py_replace placeholder new (concat (map json_escape_char s'') @ CHR 0x22 # rest)"
        unfolding esc by (simp add: py_replace_placeholder)
      moreover have "py_replace placeholder new s = new @ py_replace placeholder new s''"
        by (subst s) (simp add: py_replace_placeholder)
      ultimately show ?thesis
        using 1 len by (simp add: escape_all_unescaped [OF new])
    next
      case False
      then have rs: "py_replace placeholder new s = c # py_replace placeholder new s'"
        using Cons by (simp add: py_replace_miss placeholder_nonempty)
      have ih: "py_replace placeholder new (concat (map json_escape_char s') @ CHR 0x22 # rest)
         = concat (map json_escape_char (py_replace placeholder new s'))
           @ CHR 0x22 # py_replace placeholder new rest"
        using 1 Cons by simp
      show ?thesis
      proof (cases "unescaped c")
        case True
        have "take (length placeholder) (c # concat (map json_escape_char s') @ CHR 0x22 # rest)
            \<noteq> placeholder"
        proof
          assume "take (length placeholder)
              (c # concat (map json_escape_char s') @ CHR 0x22 # rest) = placeholder"
          then have "take (length placeholder)
              (concat (map json_escape_char s) @ CHR 0x22 # rest) = placeholder"
            using Cons True by (simp add: escape_unescaped)
          from take_escape_prefix [OF placeholder_unescaped this] False show False by simp
        qed
        then show ?thesis
          using True Cons rs ih
          by (simp add: escape_unescaped py_replace_miss placeholder_nonempty)
      next
        case esc: False
        from escape_escaped [OF this] obtain r where
          r: "json_escape_char c = CHR 0x5C # r" "CHR ''$'' \<notin> set r" by blast
        then have "CHR ''$'' \<notin> set (json_escape_char c)" by simp
        from replace_no_dollar [OF this] show ?thesis
          using Cons rs ih by simp
      qed
    qed
  qed
qed



lemma replace_Cons_no_dollar:
  "CHR ''$'' \<noteq> c \<Longrightarrow> py_replace placeholder new (c # s) = c # py_replace placeholder new s"
  by (simp add: py_replace_miss placeholder_nonempty placeholder_miss)

lemma digit_char_no_dollar: "d < 10 \<Longrightarrow> digit_char d \<noteq> CHR ''$''"
proof -
  assume "d < 10"
  then have "d < length ''0123456789''" by simp
  then have "''0123456789'' ! d \<in> set ''0123456789''" by (rule nth_mem)
  then show ?thesis by (auto simp: digit_char_def)
qed

lemma str_of_nat_no_dollar: "CHR ''$'' \<notin> set (str_of_nat n)"
proof (induction n rule: str_of_nat.induct)
  case (1 n)
  show ?case
  proof (cases "n < 10")
    case True
    then show ?thesis
      using digit_char_no_dollar [of n] by (subst str_of_nat.simps) auto
  next
    case False
    have "n mod 10 < 10" by simp
    with False 1 show ?thesis
      using digit_char_no_dollar [of "n mod 10"] by (subst str_of_nat.simps) auto
  qed
qed

lemma str_of_int_no_dollar: "CHR ''$'' \<notin> set (str_of_int i)"
  by (simp add: str_of_int_def str_of_nat_no_dollar)

lemma replace_encode:
  assumes new: "\<forall>x \<in> set new. unescaped x"
  shows "is_json t \<Longrightarrow>
       py_replace placeholder new (encode t @ rest)
         = encode (subst_tree new t) @ py_replace placeholder new rest"
    and "list_all is_json xs \<Longrightarrow>
       py_replace placeholder new (encode_list xs @ rest)
         = encode_list (map (subst_tree new) xs) @ py_replace placeholder new rest"
    and "list_all (\<lambda>kv. is_json (snd kv)) kvs \<Longrightarrow>
       py_replace placeholder new (encode_items kvs @ rest)
         = encode_items
             (map (\<lambda>kv. (py_replace placeholder new (fst kv), subst_tree new (snd kv))) kvs)
           @ py_replace placeholder new rest"
proof (induction t and xs and kvs arbitrary: rest and rest and rest
    rule: encode_encode_list_encode_items.induct)
  case (3 i)
  then show ?case by (simp add: replace_no_dollar str_of_int_no_dollar)
next
  case (4 s)
  then show ?case
    by (simp add: json_quote_def replace_Cons_no_dollar replace_escaped_string [OF new])
qed (simp_all add: replace_Cons_no_dollar json_quote_def replace_escaped_string [OF new])

lemma replace_encode_whole:
  "\<forall>x \<in> set new. unescaped x \<Longrightarrow> is_json t \<Longrightarrow>
   py_replace placeholder new (encode t) = encode (subst_tree new t)"
  using replace_encode(1) [of new t "[]"] by (simp add: py_replace_Nil placeholder_nonempty)




lemma hex_val_hexdigits: "n < 16 \<Longrightarrow> hex_val (hexdigits ! n) = Some n"
proof -
  have "\<forall>n < 16. hex_val (hexdigits ! n) = Some n"
    unfolding numeral_nat
    by (simp add: All_less_Suc hexdigits_def hex_val_def is_digit_def
        less_eq_char_def)
  then show "n < 16 \<Longrightarrow> hex_val (hexdigits ! n) = Some n" by blast
qed

lemma hex_val_hexchar: "0 \<le> d \<Longrightarrow> d < 16 \<Longrightarrow> hex_val (hexchar d) = Some (nat d)"
  by (simp add: hexchar_def hex_val_hexdigits)

lemma hex4_val_byte:
  assumes "n < 256"
  shows "hex4_val (take 4 (CHR ''0'' # CHR ''0'' # hex_byte (int n) @ r)) = Some n"
proof -
  have d: "0 \<le> int n div 16" "int n div 16 < 16" "0 \<le> int n mod 16" "int n mod 16 < 16"
    using assms by auto
  have z: "hex_val CHR ''0'' = Some 0"
    by (simp add: hex_val_def is_digit_def less_eq_char_def)
  have "nat (int n div 16) * 16 + nat (int n mod 16) = n"
    by (simp add: nat_div_distrib nat_mod_distrib)
  then show ?thesis
    using d by (simp add: hex4_val_def hex_byte_def hex_val_hexchar z)
qed

lemma parse_escaped_char:
  "parse_chars (json_escape_char c @ s)
     = bind_exn (parse_chars s) (\<lambda>(str, rest). Inr (c # str, rest))"
proof -
  have n: "(of_char c :: nat) < 256" by simp
  have oc: "(of_char c :: int) = int (of_char c)" by (simp add: of_char_def)
  show ?thesis
    unfolding json_escape_char_def
    using hex4_val_byte [OF n, of s]
    apply (simp add: oc)
    apply (intro conjI impI)
    apply (subst parse_chars.simps, simp add: unescape_def hex_byte_def)+
    done
qed


lemma parse_escaped_string:
  "parse_chars (concat (map json_escape_char s) @ CHR 0x22 # rest) = Inr (s, rest)"
proof (induction s)
  case Nil
  show ?case by (subst parse_chars.simps) simp
next
  case (Cons c s)
  then show ?case by (simp add: parse_escaped_char)
qed

lemma digit_char_digit:
  "d < 10 \<Longrightarrow> is_digit (digit_char d) \<and> digit_val (digit_char d) = d
     \<and> (digit_char d = CHR ''0'' \<longleftrightarrow> d = 0) \<and> digit_char d \<noteq> CHR ''-''"
proof -
  have "\<forall>d < 10. is_digit (digit_char d) \<and> digit_val (digit_char d) = d
     \<and> (digit_char d = CHR ''0'' \<longleftrightarrow> d = 0) \<and> digit_char d \<noteq> CHR ''-''"
    unfolding numeral_nat
    by (simp add: All_less_Suc digit_char_def is_digit_def digit_val_def less_eq_char_def)
  then show "d < 10 \<Longrightarrow> is_digit (digit_char d) \<and> digit_val (digit_char d) = d
     \<and> (digit_char d = CHR ''0'' \<longleftrightarrow> d = 0) \<and> digit_char d \<noteq> CHR ''-''"
    by blast
qed

lemma nat_of_digits_snoc: "nat_of_digits (ds @ [d]) = 10 * nat_of_digits ds + digit_val d"
  by (simp add: nat_of_digits_def)

lemma str_of_nat_props:
  "str_of_nat n \<noteq> [] \<and> (\<forall>c \<in> set (str_of_nat n). is_digit c)
   \<and> nat_of_digits (str_of_nat n) = n
   \<and> (hd (str_of_nat n) = CHR ''0'' \<longrightarrow> n = 0)
   \<and> (n = 0 \<longrightarrow> str_of_nat n = ''0'')"
proof (induction n rule: str_of_nat.induct)
  case (1 n)
  show ?case
  proof (cases "n < 10")
    case True
    with digit_char_digit [of n] show ?thesis
      by (subst (1 2 3 4 5) str_of_nat.simps) (auto simp: nat_of_digits_def digit_char_def)
  next
    case False
    have m: "n mod 10 < 10" by simp
    from False 1 have ih: "str_of_nat (n div 10) \<noteq> []"
      "\<forall>c \<in> set (str_of_nat (n div 10)). is_digit c"
      "nat_of_digits (str_of_nat (n div 10)) = n div 10"
      "hd (str_of_nat (n div 10)) = CHR ''0'' \<longrightarrow> n div 10 = 0"
      by auto
    have s: "str_of_nat n = str_of_nat (n div 10) @ [digit_char (n mod 10)]"
      using False by (subst str_of_nat.simps) simp
    from False have "n div 10 \<noteq> 0" by auto
    with ih digit_char_digit [OF m] show ?thesis
      unfolding s by (auto simp: nat_of_digits_snoc)
  qed
qed

lemma takeWhile_digits:
  "\<forall>c \<in> set ds. is_digit c \<Longrightarrow> rest = [] \<or> \<not> is_digit (hd rest) \<Longrightarrow>
   takeWhile is_digit (ds @ rest) = ds"
  by (cases rest) (auto simp: takeWhile_append)

lemma delim_no_float: "delim rest \<Longrightarrow> \<not> float_follows rest \<and> (rest = [] \<or> \<not> is_digit (hd rest))"
  by (cases rest) (auto simp: delim_def float_follows_def is_digit_def less_eq_char_def)

lemma parse_number_digits:
  assumes "ds \<noteq> []" and "\<forall>c \<in> set ds. is_digit c" and "hd ds = CHR ''0'' \<longrightarrow> ds = ''0''"
    and "delim rest"
  shows "parse_number (ds @ rest) = Inr (PInt (int (nat_of_digits ds)), rest)"
    and "parse_number (CHR ''-'' # ds @ rest) = Inr (PInt (- int (nat_of_digits ds)), rest)"
proof -
  from assms(1,2) have "is_digit (hd ds)" by (cases ds) auto
  then have not_neg: "hd ds \<noteq> CHR ''-''"
    by (auto simp: is_digit_def less_eq_char_def)
  have hd_app: "hd (ds @ rest) = hd ds" using assms(1) by simp
  note nf = delim_no_float [OF assms(4)]
  show "parse_number (ds @ rest) = Inr (PInt (int (nat_of_digits ds)), rest)"
  proof (cases "hd ds = CHR ''0''")
    case True
    with assms(3) have "ds = ''0''" by simp
    then show ?thesis using nf by (simp add: parse_number_def)
  next
    case False
    with takeWhile_digits [OF assms(2)] nf assms(1) not_neg show ?thesis
      by (simp add: parse_number_def hd_app)
  qed
  show "parse_number (CHR ''-'' # ds @ rest) = Inr (PInt (- int (nat_of_digits ds)), rest)"
  proof (cases "hd ds = CHR ''0''")
    case True
    with assms(3) have "ds = ''0''" by simp
    then show ?thesis using nf by (simp add: parse_number_def)
  next
    case False
    with takeWhile_digits [OF assms(2)] nf assms(1) show ?thesis
      by (simp add: parse_number_def hd_app)
  qed
qed

lemma parse_number_int:
  assumes "delim rest"
  shows "parse_number (str_of_int i @ rest) = Inr (PInt i, rest)"
proof -
  have p: "str_of_nat n \<noteq> []" "\<forall>c \<in> set (str_of_nat n). is_digit c"
    "hd (str_of_nat n) = CHR ''0'' \<longrightarrow> str_of_nat n = ''0''"
    "nat_of_digits (str_of_nat n) = n" for n
    using str_of_nat_props [of n] by auto
  show ?thesis
  proof (cases "i < 0")
    case False
    with parse_number_digits(1) [OF p(1,2,3) assms, of "nat i"] show ?thesis
      by (simp add: str_of_int_def p(4))
  next
    case True
    with parse_number_digits(2) [OF p(1,2,3) assms, of "nat (- i)"] show ?thesis
      by (simp add: str_of_int_def p(4))
  qed
qed


lemma skip_ws_starts_value: "starts_value s \<Longrightarrow> skip_ws s = s"
  by (cases s) (auto simp: starts_value_def skip_ws_def)

lemma skip_ws_space: "skip_ws (CHR '' '' # s) = skip_ws s"
  by (simp add: skip_ws_def is_ws_def)

lemma skip_ws_punct [simp]:
  "skip_ws (CHR '','' # s) = CHR '','' # s"
  "skip_ws (CHR '']'' # s) = CHR '']'' # s"
  "skip_ws (CHR ''}'' # s) = CHR ''}'' # s"
  "skip_ws (CHR '':'' # s) = CHR '':'' # s"
  "skip_ws (CHR 0x22 # s) = CHR 0x22 # s"
  "skip_ws [] = []"
  by (simp_all add: skip_ws_def is_ws_def)

lemma str_of_int_head:
  "str_of_int i \<noteq> [] \<and> (is_digit (hd (str_of_int i)) \<or> hd (str_of_int i) = CHR ''-'')"
proof -
  have "str_of_nat n \<noteq> [] \<and> is_digit (hd (str_of_nat n))" for n
    using str_of_nat_props [of n] by (cases "str_of_nat n") auto
  then show ?thesis by (simp add: str_of_int_def)
qed

lemma starts_value_digit:
  "s \<noteq> [] \<Longrightarrow> is_digit (hd s) \<or> hd s = CHR ''-'' \<Longrightarrow> starts_value (s @ r)"
  by (cases s) (auto simp: starts_value_def is_ws_def is_digit_def less_eq_char_def)

lemma encode_starts_value:
  "is_json t \<Longrightarrow> starts_value (encode t @ r)"
proof (cases t)
  case (PInt i)
  with str_of_int_head [of i] starts_value_digit show ?thesis by simp
qed (auto simp: starts_value_def is_ws_def json_quote_def)

lemma encode_list_starts_value:
  "xs \<noteq> [] \<Longrightarrow> list_all is_json xs \<Longrightarrow> starts_value (encode_list xs @ r)"
proof (cases xs)
  case Nil
  then show "xs \<noteq> [] \<Longrightarrow> ?thesis" by simp
next
  case (Cons x xs')
  assume "list_all is_json xs"
  with Cons have x: "is_json x" by simp
  show ?thesis
  proof (cases xs')
    case Nil
    with Cons encode_starts_value [OF x] show ?thesis by simp
  next
    case (Cons y ys)
    with \<open>xs = x # xs'\<close> encode_starts_value [OF x, of "'', '' @ encode_list (y # ys) @ r"]
    show ?thesis by simp
  qed
qed

lemma encode_items_head:
  "kvs \<noteq> [] \<Longrightarrow> \<exists>s. encode_items kvs @ r = CHR 0x22 # s"
proof (cases kvs)
  case Nil
  then show "kvs \<noteq> [] \<Longrightarrow> ?thesis" by simp
next
  case (Cons kv kvs')
  obtain k v where kv: "kv = (k, v)" by (cases kv)
  show ?thesis
    using Cons kv by (cases kvs') (auto simp: json_quote_def)
qed

lemma dict_set_fresh: "k \<notin> fst ` set d \<Longrightarrow> dict_set k v d = d @ [(k, v)]"
  by (induction d) auto

lemma dict_of_pairs_distinct_aux:
  "distinct (map fst (d @ kvs)) \<Longrightarrow>
   foldl (\<lambda>d kv. dict_set (fst kv) (snd kv) d) d kvs = d @ kvs"
proof (induction kvs arbitrary: d)
  case Nil
  show ?case by simp
next
  case (Cons kv kvs)
  from Cons.prems have "fst kv \<notin> fst ` set d" by auto
  then have "dict_set (fst kv) (snd kv) d = d @ [kv]" by (simp add: dict_set_fresh)
  with Cons.IH [of "d @ [kv]"] Cons.prems show ?case by simp
qed

lemma dict_of_pairs_distinct: "distinct (map fst kvs) \<Longrightarrow> dict_of_pairs kvs = kvs"
  using dict_of_pairs_distinct_aux [of "[]" kvs] by (simp add: dict_of_pairs_def)

lemma encode_nonempty: "is_json t \<Longrightarrow> encode t \<noteq> []"
  using encode_starts_value [of t "[]"] by (auto simp: starts_value_def)


lemma parse_value_number:
  assumes "s \<noteq> []" and "is_digit (hd s) \<or> hd s = CHR ''-''"
  shows "parse_value (Suc m) s = parse_number s"
proof -
  from assms(1) obtain c s' where s: "s = c # s'" by (cases s) auto
  from assms(2) s have c: "c \<noteq> CHR 0x22" "c \<noteq> CHR ''{''" "c \<noteq> CHR ''[''"
    "c \<noteq> CHR ''n''" "c \<noteq> CHR ''t''" "c \<noteq> CHR ''f''"
    by (auto simp: is_digit_def less_eq_char_def)
  have "take 4 s \<noteq> ''null''" "take 4 s \<noteq> ''true''" "take 5 s \<noteq> ''false''"
    using c s by (simp_all add: take_Cons')
  then show ?thesis using c s by simp
qed


lemma starts_value_take1:
  "starts_value s \<Longrightarrow> take 1 (skip_ws s) \<noteq> '']'' \<and> take 1 (skip_ws s) \<noteq> ''}''"
  by (cases s) (auto simp: skip_ws_starts_value starts_value_def)

lemma delim_Cons [simp]:
  "delim (CHR '','' # s)" "delim (CHR '']'' # s)" "delim (CHR ''}'' # s)" "delim []"
  by (simp_all add: delim_def)

lemma parse_encode:
  "is_json t \<Longrightarrow> distinct_keys t \<Longrightarrow> delim rest \<Longrightarrow> length (encode t) \<le> n \<Longrightarrow>
     parse_value n (encode t @ rest) = Inr (t, rest)"
  "xs \<noteq> [] \<Longrightarrow> list_all is_json xs \<Longrightarrow> list_all distinct_keys xs \<Longrightarrow>
     length (encode_list xs) < n \<Longrightarrow>
     parse_elems n (encode_list xs @ CHR '']'' # rest) = Inr (xs, rest)"
  "kvs \<noteq> [] \<Longrightarrow> list_all (\<lambda>kv. is_json (snd kv)) kvs \<Longrightarrow>
     list_all (\<lambda>kv. distinct_keys (snd kv)) kvs \<Longrightarrow> length (encode_items kvs) < n \<Longrightarrow>
     parse_members n (encode_items kvs @ CHR ''}'' # rest) = Inr (kvs, rest)"
proof (induction t and xs and kvs arbitrary: n rest and n rest and n rest
    rule: encode_encode_list_encode_items.induct)
  case 1
  then obtain m where "n = Suc m" by (cases n) auto
  then show ?case by simp
next
  case (2 b)
  then obtain m where "n = Suc m" by (cases n; cases b) auto
  then show ?case by (cases b) simp_all
next
  case (3 i)
  from 3 str_of_int_head [of i] obtain m where n: "n = Suc m" by (cases n) auto
  have "parse_value (Suc m) (str_of_int i @ rest) = parse_number (str_of_int i @ rest)"
    using str_of_int_head [of i] by (intro parse_value_number) auto
  with 3 n show ?case by (simp add: parse_number_int)
next
  case (4 s)
  then obtain m where "n = Suc m" by (cases n) (auto simp: json_quote_def)
  then show ?case by (simp add: json_quote_def parse_escaped_string)
next
  case (5 xs)
  then obtain m where n: "n = Suc m" and m: "length (encode_list xs) < m"
    by (cases n) auto
  show ?case
  proof (cases "xs = []")
    case True
    with n show ?thesis by simp
  next
    case False
    from 5 have js: "list_all is_json xs" "list_all distinct_keys xs" by simp_all
    from encode_list_starts_value [OF False js(1), of "CHR '']'' # rest"]
    have sv: "starts_value (encode_list xs @ CHR '']'' # rest)" .
    from "5.IH" [OF False js m, of rest]
    have "parse_elems m (encode_list xs @ CHR '']'' # rest) = Inr (xs, rest)" .
    with n sv starts_value_take1 [OF sv] show ?thesis
      by (simp add: skip_ws_starts_value)
  qed
next
  case (6 kvs)
  then obtain m where n: "n = Suc m" and m: "length (encode_items kvs) < m"
    by (cases n) auto
  show ?case
  proof (cases "kvs = []")
    case True
    with n show ?thesis by simp
  next
    case False
    from 6 have js: "list_all (\<lambda>kv. is_json (snd kv)) kvs"
      "list_all (\<lambda>kv. distinct_keys (snd kv)) kvs" and d: "distinct (map fst kvs)"
      by simp_all
    from encode_items_head [OF False, of "CHR ''}'' # rest"]
    obtain s where s: "encode_items kvs @ CHR ''}'' # rest = CHR 0x22 # s" by blast
    from "6.IH" [OF False js m, of rest]
    have "parse_members m (encode_items kvs @ CHR ''}'' # rest) = Inr (kvs, rest)" .
    with n s d show ?thesis
      by (simp add: dict_of_pairs_distinct)
  qed
next
  case (11 x)
  then obtain m where n: "n = Suc m" and m: "length (encode x) \<le> m"
    by (cases n) auto
  from 11 have "parse_value m (encode x @ CHR '']'' # rest) = Inr (x, CHR '']'' # rest)"
    using m by (intro "11.IH") simp_all
  with n show ?case by simp
next
  case (12 x y ys)
  then obtain m where n: "n = Suc m"
    and m: "length (encode x) + 2 + length (encode_list (y # ys)) \<le> m"
    by (cases n) auto
  let ?more = "encode_list (y # ys) @ CHR '']'' # rest"
  from 12 have "parse_value m (encode x @ CHR '','' # CHR '' '' # ?more)
      = Inr (x, CHR '','' # CHR '' '' # ?more)"
    using m by (intro "12.IH"(1)) simp_all
  moreover from 12 have "parse_elems m ?more = Inr (y # ys, rest)"
    using m by (intro "12.IH"(2)) simp_all
  moreover from 12 have "starts_value ?more"
    by (intro encode_list_starts_value) simp_all
  ultimately show ?case
    using n by (simp add: skip_ws_space skip_ws_starts_value)
next
  case (14 k v)
  then obtain m where n: "n = Suc m" and m: "length (json_quote k) + 2 + length (encode v) \<le> m"
    by (cases n) auto
  from 14 have "parse_value m (encode v @ CHR ''}'' # rest) = Inr (v, CHR ''}'' # rest)"
    using m by (intro "14.IH") simp_all
  moreover from 14 have "starts_value (encode v @ CHR ''}'' # rest)"
    by (intro encode_starts_value) simp
  ultimately show ?case
    using n by (simp add: json_quote_def parse_escaped_string skip_ws_space skip_ws_starts_value)
next
  case (15 k v kv kvs)
  then obtain m where n: "n = Suc m"
    and m: "length (json_quote k) + 2 + length (encode v) + 2 + length (encode_items (kv # kvs)) \<le> m"
    by (cases n) auto
  let ?more = "encode_items (kv # kvs) @ CHR ''}'' # rest"
  from 15 have "parse_value m (encode v @ CHR '','' # CHR '' '' # ?more)
      = Inr (v, CHR '','' # CHR '' '' # ?more)"
    using m by (intro "15.IH"(1)) simp_all
  moreover from 15 have "parse_members m ?more = Inr (kv # kvs, rest)"
    using m by (intro "15.IH"(2)) simp_all
  moreover from 15 have "starts_value (encode v @ CHR '','' # CHR '' '' # ?more)"
    by (intro encode_starts_value) simp
  moreover obtain s where "?more = CHR 0x22 # s"
    using encode_items_head [of "kv # kvs" "CHR ''}'' # rest"] by auto
  ultimately show ?case
    using n by (simp add: json_quote_def parse_escaped_string skip_ws_space skip_ws_starts_value)
qed simp_all

theorem loads_encode:
  "is_json t \<Longrightarrow> distinct_keys t \<Longrightarrow> json_loads (encode t) = Inr t"
  using parse_encode(1) [of t "[]" "Suc (length (encode t))"]
    encode_starts_value [of t "[]"]
  by (simp add: json_loads_def skip_ws_starts_value)



lemma replace_id: "CHR ''$'' \<notin> set s \<Longrightarrow> py_replace placeholder new s = s"
  using replace_no_dollar [of s new "[]"] by (simp add: py_replace_Nil placeholder_nonempty)

lemma subst_tree_values: "dollar_free_keys t \<Longrightarrow> subst_tree new t = subst_values new t"
  by (induction new t rule: subst_tree.induct) (auto simp: list_all_iff replace_id)

lemma subst_tree_json: "is_json t \<Longrightarrow> is_json (subst_tree new t)"
  by (induction new t rule: subst_tree.induct) (auto simp: list_all_iff)

lemma subst_values_container: "is_container (subst_values new t) = is_container t"
  by (cases t) (simp_all add: is_container_def)

lemma subst_values_distinct: "distinct_keys t \<Longrightarrow> distinct_keys (subst_values new t)"
  by (induction new t rule: subst_values.induct) (auto simp: list_all_iff comp_def)

lemma subst_values_nodes: "nodes_only t \<Longrightarrow> nodes_only (subst_values new t)"
  by (induction new t rule: subst_values.induct)
    (auto simp: list_all_iff subst_values_container)

lemma map_of_subst_values:
  "map_of (map (\<lambda>kv. (fst kv, subst_values new (snd kv))) kvs) k
     = map_option (subst_values new) (map_of kvs k)"
  by (induction kvs) auto

lemma truthy_subst_False: "truthy v = Inr False \<Longrightarrow> truthy (subst_values new v) = Inr False"
  by (cases v) (auto simp: py_replace_Nil placeholder_nonempty)

lemma subst_values_no_file_nodes: "no_file_nodes t \<Longrightarrow> no_file_nodes (subst_values new t)"
proof (induction new t rule: subst_values.induct)
  case (3 new kvs)
  from "3.prems" have nk: "map_of kvs ''first_path_exists'' = None"
    and lc: "truthy (dict_get kvs ''load_contents'' (PBool False)) = Inr False"
    and rec: "list_all (\<lambda>kv. no_file_nodes (snd kv)) kvs"
    by (simp_all add: has_key_def)
  have "truthy (dict_get (map (\<lambda>kv. (fst kv, subst_values new (snd kv))) kvs)
      ''load_contents'' (PBool False)) = Inr False"
    using lc truthy_subst_False
    by (auto simp: dict_get_def map_of_subst_values split: option.splits)
  moreover have "list_all (\<lambda>kv. no_file_nodes (snd kv))
      (map (\<lambda>kv. (fst kv, subst_values new (snd kv))) kvs)"
    using rec "3.IH" by (auto simp: list_all_iff)
  ultimately show ?case
    using nk by (simp add: has_key_def map_of_subst_values)
qed (auto simp: list_all_iff)

lemma load_identity:
  "is_container t \<longrightarrow> nodes_only t \<longrightarrow> no_file_nodes t \<longrightarrow>
     load_layout_files w t sn rf = Inr t"
  "list_all (\<lambda>x. is_container x \<and> nodes_only x) ds \<longrightarrow> list_all no_file_nodes ds \<longrightarrow>
     load_list w ds sn rf = Inr ds"
  "list_all (\<lambda>kv. nodes_only (snd kv)) kvs \<longrightarrow> list_all (\<lambda>kv. no_file_nodes (snd kv)) kvs \<longrightarrow>
     load_items w kvs sn rf = Inr kvs"
  by (induction w t sn rf and w ds sn rf and w kvs sn rf
      rule: load_layout_files_load_list_load_items.induct)
    (auto simp: is_container_def)

lemma copy_of_layout:
  assumes "is_json t" and "\<forall>c \<in> set new. unescaped c" and "distinct_keys (subst_tree new t)"
  shows "bind_exn (json_dumps t) (\<lambda>text. json_loads (py_replace placeholder new text))
     = Inr (subst_tree new t)"
  using assms
  by (simp add: json_dumps_def replace_encode_whole loads_encode subst_tree_json)

text \<open>
  \<^bold>\<open>C6\<close> (as the code has it). Take a layout tree: a sequence or mapping of JSON
  values whose sequences hold sequences and mappings only. If no mapping in it has
  the key \<open>first_path_exists\<close> or a true \<open>load_contents\<close>, no key contains
  \<open>$\<close>, and the sample name is made of characters that JSON writes unescaped, then
  \<open>prepare_layout_components\<close> returns the tree with the placeholder replaced in
  its string values and nothing else changed.
\<close>

theorem resolve_is_identity_up_to_substitution:
  assumes "layout_tree (layout cfg)" and "no_file_nodes (layout cfg)"
    and "dollar_free_keys (layout cfg)" and "\<forall>c \<in> set folder_name. unescaped c"
  shows "prepare_layout_components w cfg folder_name
     = Inr (subst_values folder_name (layout cfg))"
proof -
  let ?t = "layout cfg" and ?t' = "subst_values folder_name (layout cfg)"
  from assms(1) have t: "is_container ?t" "is_json ?t" "distinct_keys ?t" "nodes_only ?t"
    by (simp_all add: layout_tree_def)
  have eq: "subst_tree folder_name ?t = ?t'"
    using assms(3) by (rule subst_tree_values)
  have "bind_exn (json_dumps ?t) (\<lambda>text. json_loads (py_replace placeholder folder_name text))
      = Inr ?t'"
    using copy_of_layout [OF t(2) assms(4)] t(3) by (simp add: eq subst_values_distinct)
  then have "prepare_layout_components w cfg folder_name
      = load_layout_files w ?t' folder_name (results_folder cfg)"
    by (cases "json_dumps ?t") (simp_all add: prepare_layout_components_def)
  also have "\<dots> = Inr ?t'"
    using load_identity(1) [of ?t' w folder_name "results_folder cfg"] t(1,4) assms(2)
    by (simp add: subst_values_container subst_values_nodes subst_values_no_file_nodes)
  finally show ?thesis .
qed


lemma replace_example:
  "py_replace placeholder ''s1'' ''${sample_folder_name}/a.png'' = ''s1/a.png''"
  by code_simp

theorem resolve_is_identity_up_to_substitution_witness:
  "prepare_layout_components bare_world (scenario_cfg\<lparr>layout := image_layout\<rparr>) ''s1''
     = Inr (PList [PDict [(''type'', PStr ''Image''), (''value'', PStr ''s1/a.png'')]])"
  using resolve_is_identity_up_to_substitution
    [of "scenario_cfg\<lparr>layout := image_layout\<rparr>" "''s1''" bare_world]
  by (simp add: image_layout_def layout_tree_def is_container_def has_key_def dict_get_def
      unescaped_def replace_example replace_id)

text \<open>
  \<^bold>\<open>C6\<close>, the claim as the specification words it, fails. A tree without
  \<open>first_path_exists\<close> and \<open>load_contents\<close> nodes, and without the placeholder,
  whose \<open>choices\<close> field is a list of strings is not returned as it is: the
  traversal enters the list, meets a string and raises \<open>TypeError\<close>.
\<close>

theorem list_of_scalars_counterexample:
  "no_file_nodes dropdown_layout
   \<and> subst_values ''s1'' dropdown_layout = dropdown_layout
   \<and> prepare_layout_components bare_world (scenario_cfg\<lparr>layout := dropdown_layout\<rparr>) ''s1''
       = Inl TypeError"
proof -
  have "bind_exn (json_dumps dropdown_layout)
      (\<lambda>text. json_loads (py_replace placeholder ''s1'' text)) = Inr dropdown_layout"
    using copy_of_layout [of dropdown_layout "''s1''"]
    by (simp add: dropdown_layout_def unescaped_def replace_id)
  then have "prepare_layout_components bare_world (scenario_cfg\<lparr>layout := dropdown_layout\<rparr>) ''s1''
      = load_layout_files bare_world dropdown_layout ''s1'' (Some results_r)"
    by (cases "json_dumps dropdown_layout")
      (simp_all add: prepare_layout_components_def scenario_cfg_def)
  then show ?thesis
    by (simp add: dropdown_layout_def has_key_def dict_get_def is_container_def replace_id)
qed

text \<open>A sample name with a quote in it: the text after the replacement is no JSON.\<close>

lemma quote_in_name_example:
  "prepare_layout_components bare_world (scenario_cfg\<lparr>layout := image_layout\<rparr>)
     [CHR ''a'', CHR 0x22, CHR ''b''] = Inl JSONDecodeError"
  by code_simp


subsection \<open>The copy of the layout in the store\<close>

















section \<open>Properties of discovery\<close>


lemma mapM_exn_map_Inr: "(\<And>x. x \<in> set xs \<Longrightarrow> f x = Inr (g x)) \<Longrightarrow> mapM_exn f xs = Inr (map g xs)"
  by (induction xs) auto

lemma below_names:
  assumes "below rp m"
  shows "names m = names rp @ (names m ! length (names rp)) # drop (Suc (length (names rp))) (names m)"
proof -
  from assms have len: "length (names rp) < length (names m)"
    and tk: "take (length (names rp)) (names m) = names rp"
    by (auto simp: below_def)
  have "names m = take (length (names rp)) (names m) @ drop (length (names rp)) (names m)"
    by simp
  also have "drop (length (names rp)) (names m)
      = (names m ! length (names rp)) # drop (Suc (length (names rp))) (names m)"
    using len by (simp add: Cons_nth_drop_Suc)
  finally show ?thesis using tk by simp
qed

lemma relative_to_below:
  assumes "below rp m"
  shows "relative_to m rp
     = Inr (PosixPath [] ((names m ! length (names rp)) # drop (Suc (length (names rp))) (names m)))"
proof -
  from assms have "root m = root rp" "length (names rp) < length (names m)"
    "take (length (names rp)) (names m) = names rp"
    by (auto simp: below_def)
  then show ?thesis by (simp add: relative_to_def Cons_nth_drop_Suc)
qed

lemma folder_of_below:
  assumes "below rp m"
  shows "bind_exn (relative_to m rp)
           (\<lambda>p. bind_exn (first_part p) (\<lambda>x. Inr (joinpath rp (Path x))))
         = Inr (sample_folder_of rp m)"
proof -
  from assms have v: "valid_name (names m ! length (names rp))" by (simp add: below_def)
  then have "Path (names m ! length (names rp)) = PosixPath [] [names m ! length (names rp)]"
    by (intro Path_single_name) (auto simp: valid_name_def)
  then show ?thesis
    by (simp add: relative_to_below [OF assms] first_part_def parts_def joinpath_def
        is_absolute_def sample_folder_of_def)
qed

lemma mapM_exn_bind_fuse:
  "bind_exn (mapM_exn f xs) (mapM_exn g) = mapM_exn (\<lambda>x. bind_exn (f x) g) xs"
  if "\<And>x. x \<in> set xs \<Longrightarrow> \<exists>y. f x = Inr y"
  using that
proof (induction xs)
  case Nil
  show ?case by simp
next
  case (Cons a xs)
  then obtain y where y: "f a = Inr y" by auto
  from Cons have ih: "bind_exn (mapM_exn f xs) (mapM_exn g) = mapM_exn (\<lambda>x. bind_exn (f x) g) xs"
    by auto
  from Cons.prems have "\<forall>x \<in> set xs. \<exists>y. f x = Inr y" by auto
  then obtain ys where ys: "mapM_exn f xs = Inr ys" using mapM_exn_all_Inr by blast
  with ih y show ?case by simp
qed

lemma filtered_folders_below:
  assumes "\<forall>m \<in> set matches. below rp m"
  shows "filtered_folders rp matches = Inr (map (sample_folder_of rp) (sorted_paths matches))"
proof -
  have all: "\<And>m. m \<in> set (sorted_paths matches) \<Longrightarrow> below rp m"
    using assms by (simp add: sorted_paths_def)
  have "filtered_folders rp matches
    = mapM_exn (\<lambda>m. bind_exn (relative_to m rp)
        (\<lambda>p. bind_exn (first_part p) (\<lambda>x. Inr (joinpath rp (Path x)))))
        (sorted_paths matches)"
    unfolding filtered_folders_def Let_def
    by (rule mapM_exn_bind_fuse) (auto simp: relative_to_below dest: all)
  also have "\<dots> = Inr (map (sample_folder_of rp) (sorted_paths matches))"
    by (rule mapM_exn_map_Inr) (simp add: folder_of_below all)
  finally show ?thesis .
qed


lemma sorted_two_matches:
  "sorted_paths [PosixPath ''/'' [''r'', ''b'', ''x.json''],
                 PosixPath ''/'' [''r'', ''a'', ''y.json''],
                 PosixPath ''/'' [''r'', ''a'', ''x.json'']]
   = [PosixPath ''/'' [''r'', ''a'', ''x.json''],
      PosixPath ''/'' [''r'', ''a'', ''y.json''],
      PosixPath ''/'' [''r'', ''b'', ''x.json'']]"
  by (simp add: sorted_paths_def parts_def less_char_def less_eq_char_def)

lemma parts_prefix_le:
  fixes pre :: "string list"
  shows "pre @ xs \<le> pre @ ys \<longleftrightarrow> xs \<le> ys"
  by (induction pre) auto

lemma below_parts:
  assumes "below rp m"
  shows "\<exists>pre t. parts m = pre @ (names m ! length (names rp)) # t
     \<and> parts (sample_folder_of rp m) = pre @ [names m ! length (names rp)]
     \<and> pre = parts rp"
proof -
  from assms have r: "root m = root rp" by (simp add: below_def)
  note n = below_names [OF assms]
  show ?thesis
  proof (cases "root rp = []")
    case True
    with r n show ?thesis
      by (intro exI [of _ "names rp"]
          exI [of _ "drop (Suc (length (names rp))) (names m)"])
        (simp add: parts_def sample_folder_of_def)
  next
    case False
    with r n show ?thesis
      by (intro exI [of _ "root rp # names rp"]
          exI [of _ "drop (Suc (length (names rp))) (names m)"])
        (simp add: parts_def sample_folder_of_def)
  qed
qed

lemma folder_mono:
  assumes "below rp m1" and "below rp m2" and "parts m1 \<le> parts m2"
  shows "parts (sample_folder_of rp m1) \<le> parts (sample_folder_of rp m2)"
proof -
  from below_parts [OF assms(1)] obtain t1 where
    1: "parts m1 = parts rp @ (names m1 ! length (names rp)) # t1"
       "parts (sample_folder_of rp m1) = parts rp @ [names m1 ! length (names rp)]"
    by blast
  from below_parts [OF assms(2)] obtain t2 where
    2: "parts m2 = parts rp @ (names m2 ! length (names rp)) # t2"
       "parts (sample_folder_of rp m2) = parts rp @ [names m2 ! length (names rp)]"
    by blast
  from assms(3) 1 2 show ?thesis
    by (auto simp: parts_prefix_le)
qed

lemma folders_sorted:
  assumes "\<forall>m \<in> set matches. below rp m"
  shows "sorted (map parts (map (sample_folder_of rp) (sorted_paths matches)))"
proof -
  have "sorted (map parts (sorted_paths matches))"
    by (simp add: sorted_paths_def)
  then have "sorted_wrt (\<lambda>x y. parts x \<le> parts y) (sorted_paths matches)"
    by (simp add: sorted_map)
  then have "sorted_wrt (\<lambda>x y. parts (sample_folder_of rp x) \<le> parts (sample_folder_of rp y))
      (sorted_paths matches)"
  proof (rule sorted_wrt_mono_rel [rotated])
    fix x y
    assume "x \<in> set (sorted_paths matches)" "y \<in> set (sorted_paths matches)"
      "parts x \<le> parts y"
    with assms show "parts (sample_folder_of rp x) \<le> parts (sample_folder_of rp y)"
      by (auto simp: sorted_paths_def intro: folder_mono)
  qed
  then show ?thesis by (simp add: sorted_map comp_def)
qed

text \<open>
  \<^bold>\<open>C3\<close> (as the code has it). With a filter pattern set and the results folder
  present, discovery sorts the matches of \<open>rglob\<close>, takes each match's path
  relative to the results folder and maps it to the results folder joined with the
  first part of that path. Nothing removes a repeated folder: the list has one entry
  for every match, in the order of the sorted matches, which leaves it sorted. The
  same list is assigned to \<open>all_samples_dirs\<close> and written to the cache file.
\<close>

theorem filter_discovery_lists_one_folder_per_match:
  assumes "results_path self = Some rp" and "path_exists w rp = Inr True"
    and "self_filter_results_by_existance_of self = Some pat"
    and "rglob w rp pat = Inr matches" and "\<forall>m \<in> set matches. below rp m"
    and "write_error w (cached_path self) = None"
  shows "\<exists>w'. discover_all_samples w self
          = Inr (self\<lparr>all_samples_dirs :=
                   Some (map (sample_folder_of rp) (sorted_paths matches))\<rparr>, w')
        \<and> read_json w' (cached_path self)
          = Inr (PList (map (\<lambda>p. PStr (as_posix p))
                   (map (sample_folder_of rp) (sorted_paths matches))))
        \<and> length (map (sample_folder_of rp) (sorted_paths matches)) = length matches
        \<and> sorted (map parts (map (sample_folder_of rp) (sorted_paths matches)))"
  using assms filtered_folders_below [OF assms(5)] folders_sorted [OF assms(5)]
  by (simp add: discover_all_samples_def Let_def logger_def write_cache_def sorted_paths_def)

theorem filter_discovery_lists_one_folder_per_match_witness:
  "\<exists>w'. discover_all_samples two_matches_world filter_backend
          = Inr (filter_backend\<lparr>all_samples_dirs := Some [sample_a, sample_a, sample_b]\<rparr>, w')
        \<and> read_json w' cache_file = Inr (PList [PStr ''/r/a'', PStr ''/r/a'', PStr ''/r/b''])"
  using filter_discovery_lists_one_folder_per_match
    [of filter_backend results_r two_matches_world "''*.json''"
        "[PosixPath ''/'' [''r'', ''b'', ''x.json''],
          PosixPath ''/'' [''r'', ''a'', ''y.json''],
          PosixPath ''/'' [''r'', ''a'', ''x.json'']]"]
  by (simp add: sorted_two_matches below_def valid_name_def sample_folder_of_def
      filter_backend_def backend_of_def two_matches_world_def bare_world_def results_r_def
      cache_file_def sample_a_def sample_b_def as_posix_def) blast

text \<open>
  \<^bold>\<open>C3\<close>, the claim as the specification words it, fails. With \<open>/r/a/x.json\<close>,
  \<open>/r/a/y.json\<close> and \<open>/r/b/x.json\<close> matching, the list in memory and the list in
  the cache file both hold \<open>/r/a\<close> twice.
\<close>

theorem duplicate_sample_folders_counterexample:
  "map_sum id fst (discover_all_samples two_matches_world filter_backend)
     = Inr (filter_backend\<lparr>all_samples_dirs := Some [sample_a, sample_a, sample_b]\<rparr>)
   \<and> bind_exn (discover_all_samples two_matches_world filter_backend)
        (case_prod (\<lambda>self w'. read_json w' (cached_path self)))
     = Inr (PList [PStr ''/r/a'', PStr ''/r/a'', PStr ''/r/b''])
   \<and> \<not> distinct [sample_a, sample_a, sample_b]"
  by (simp add: discover_all_samples_def filtered_folders_def sorted_two_matches
      relative_to_def first_part_def parts_def joinpath_def is_absolute_def Path_def
      splitroot_def write_cache_def logger_def Let_def
      filter_backend_def backend_of_def two_matches_world_def bare_world_def results_r_def
      cache_file_def sample_a_def sample_b_def as_posix_def)

section \<open>Properties of construction and of the cache file\<close>


lemma hexchar_hex: "0 \<le> d \<Longrightarrow> d < 16 \<Longrightarrow> hexchar d \<in> set hexdigits"
proof -
  assume "0 \<le> d" "d < 16"
  then have "nat d < length hexdigits" by (simp add: hexdigits_def)
  then show ?thesis unfolding hexchar_def by (rule nth_mem)
qed

lemma hex_byte_hex: "0 \<le> b \<Longrightarrow> b < 256 \<Longrightarrow> set (hex_byte b) \<subseteq> set hexdigits"
proof -
  assume b: "0 \<le> b" "b < 256"
  then have "0 \<le> b div 16" "b div 16 < 16" "0 \<le> b mod 16" "b mod 16 < 16" by auto
  then show ?thesis by (simp add: hex_byte_def hexchar_hex)
qed

lemma be_bytes_range: "b \<in> set (be_bytes k n) \<Longrightarrow> 0 \<le> b \<and> b < 256"
  by (auto simp: be_bytes_def)

lemma sha256_hexdigest_hex: "set (sha256_hexdigest s) \<subseteq> set hexdigits"
  unfolding sha256_hexdigest_def
  using hex_byte_hex be_bytes_range by fastforce

lemma sha256_hexdigest_no_slash: "CHR ''/'' \<notin> set (sha256_hexdigest s)"
proof -
  have "CHR ''/'' \<notin> set hexdigits" by (simp add: hexdigits_def)
  with sha256_hexdigest_hex [of s] show ?thesis by blast
qed

lemma Path_json_name:
  "CHR ''/'' \<notin> set h \<Longrightarrow> Path (h @ ''.json'') = PosixPath [] [h @ ''.json'']"
  by (rule Path_single_name) auto








lemma discover_missing_folder:
  assumes "results_path self = None
      \<or> (\<exists>rp. results_path self = Some rp \<and> path_exists w rp = Inr False)"
  shows "\<exists>msg. discover_all_samples w self = Inr (self, logger msg w)"
  using assms by (auto simp: discover_all_samples_def)

lemma no_list_no_samples:
  "all_samples_dirs self = None \<Longrightarrow> fst (get_samples_metadata w self offset limit) = []"
  by (simp add: get_samples_metadata_def samples_metadata_try_def)

text \<open>
  \<^bold>\<open>C8\<close> (as the code has it). When the results folder is unset or does not exist,
  \<open>discover_all_samples\<close> hands one record to the logger and returns: the object,
  its sample list included, and the cache file stay as they were. A \<open>Backend\<close>
  without a sample list answers every page request with the empty list, the
  \<open>AttributeError\<close> being caught. So constructing a \<open>Backend\<close> with no cache file
  and no results folder succeeds, and every page of it is empty.
\<close>

theorem discovery_without_results_folder:
  "((results_path self = None
       \<or> (\<exists>rp. results_path self = Some rp \<and> path_exists w rp = Inr False)) \<longrightarrow>
      (\<exists>msg. discover_all_samples w self = Inr (self, logger msg w)))
   \<and> (all_samples_dirs self = None \<longrightarrow>
        fst (get_samples_metadata w self offset limit) = [])
   \<and> (mkdir_parents (parent (cache_path_of w cfg)) w = Inr w1 \<longrightarrow>
      path_exists w1 (cache_path_of w cfg) = Inr False \<longrightarrow>
      (results_folder cfg = None
         \<or> (\<exists>rp. results_folder cfg = Some rp \<and> path_exists w1 rp = Inr False)) \<longrightarrow>
      (\<exists>self' msg. Backend_init w cfg proj_root = Inr (self', logger msg w1)
          \<and> all_samples_dirs self' = None
          \<and> fst (get_samples_metadata w2 self' offset limit) = []))"
proof (intro conjI impI)
  assume "results_path self = None
      \<or> (\<exists>rp. results_path self = Some rp \<and> path_exists w rp = Inr False)"
  then show "\<exists>msg. discover_all_samples w self = Inr (self, logger msg w)"
    by (rule discover_missing_folder)
next
  assume "all_samples_dirs self = None"
  then show "fst (get_samples_metadata w self offset limit) = []"
    by (rule no_list_no_samples)
next
  let ?self = "\<lparr>self_filename = filename cfg, results_path = results_folder cfg,
                  project_root = proj_root, self_thumbnail_path = thumbnail_path cfg,
                  self_filter_results_by_existance_of = filter_results_by_existance_of cfg,
                  cached_path = cache_path_of w cfg, all_samples_dirs = None\<rparr>"
  assume mk: "mkdir_parents (parent (cache_path_of w cfg)) w = Inr w1"
    and nocache: "path_exists w1 (cache_path_of w cfg) = Inr False"
    and nores: "results_folder cfg = None
         \<or> (\<exists>rp. results_folder cfg = Some rp \<and> path_exists w1 rp = Inr False)"
  from nores have "results_path ?self = None
      \<or> (\<exists>rp. results_path ?self = Some rp \<and> path_exists w1 rp = Inr False)"
    by simp
  from discover_missing_folder [OF this]
  obtain msg where "discover_all_samples w1 ?self = Inr (?self, logger msg w1)" by blast
  with mk nocache have "Backend_init w cfg proj_root = Inr (?self, logger msg w1)"
    by (simp add: Backend_init_def Let_def)
  moreover have "fst (get_samples_metadata w2 ?self offset limit) = []"
    by (rule no_list_no_samples) simp
  ultimately show "\<exists>self' msg. Backend_init w cfg proj_root = Inr (self', logger msg w1)
          \<and> all_samples_dirs self' = None
          \<and> fst (get_samples_metadata w2 self' offset limit) = []"
    by (intro exI [of _ ?self] exI [of _ msg]) simp
qed

theorem discovery_without_results_folder_witness:
  "(\<exists>msg. discover_all_samples bare_world (backend_of (PStr ''thumb.png'') None)
        = Inr (backend_of (PStr ''thumb.png'') None, logger msg bare_world))
   \<and> fst (get_samples_metadata bare_world (backend_of (PStr ''thumb.png'') None) 0 10) = []
   \<and> (\<exists>self' w'. Backend_init bare_world scenario_cfg (PosixPath [] []) = Inr (self', w')
        \<and> all_samples_dirs self' = None
        \<and> fst (get_samples_metadata w' self' 0 10) = [])"
proof -
  let ?w1 = "bare_world\<lparr>path_exists := (\<lambda>q.
          if root q = root (parent (cache_path_of bare_world scenario_cfg))
             \<and> take (length (names q)) (names (parent (cache_path_of bare_world scenario_cfg)))
                 = names q
          then Inr True else path_exists bare_world q)\<rparr>"
  have cp: "cache_path_of bare_world scenario_cfg
      = PosixPath ''/'' [''cache'', sha256_hexdigest ''/rmeta.json'' @ ''.json'']"
    by (simp add: cache_path_of_def scenario_cfg_def Let_def Path_json_name
        sha256_hexdigest_no_slash joinpath_def is_absolute_def results_r_def as_posix_def
        or_empty_def)
  have "mkdir_error bare_world d = None" for d
    by (simp add: bare_world_def)
  then have mk:
    "mkdir_parents (parent (cache_path_of bare_world scenario_cfg)) bare_world = Inr ?w1"
    by (simp add: mkdir_parents_def)
  have pe: "path_exists bare_world q = Inr False" for q
    by (simp add: bare_world_def empty_disk_def)
  have nocache: "path_exists ?w1 (cache_path_of bare_world scenario_cfg) = Inr False"
    by (simp add: cp parent_def pe)
  have nores: "results_folder scenario_cfg = None
      \<or> (\<exists>rp. results_folder scenario_cfg = Some rp \<and> path_exists ?w1 rp = Inr False)"
  proof -
    have "results_folder scenario_cfg = Some results_r"
      by (simp add: scenario_cfg_def)
    then show ?thesis
      by (simp add: cp parent_def pe results_r_def)
  qed
  have nores_self: "results_path (backend_of (PStr ''thumb.png'') None) = None
      \<or> (\<exists>rp. results_path (backend_of (PStr ''thumb.png'') None) = Some rp
            \<and> path_exists bare_world rp = Inr False)"
    by (simp add: backend_of_def bare_world_def empty_disk_def)
  from discovery_without_results_folder
    [of "backend_of (PStr ''thumb.png'') None" bare_world 0 10 scenario_cfg ?w1
        "PosixPath [] []" "logger ''Results path does not exist: /r'' ?w1"]
    mk nocache nores nores_self
  have a: "\<exists>msg. discover_all_samples bare_world (backend_of (PStr ''thumb.png'') None)
        = Inr (backend_of (PStr ''thumb.png'') None, logger msg bare_world)"
    and b: "all_samples_dirs (backend_of (PStr ''thumb.png'') None) = None \<longrightarrow>
       fst (get_samples_metadata bare_world (backend_of (PStr ''thumb.png'') None) 0 10) = []"
    and c: "\<exists>self' msg. Backend_init bare_world scenario_cfg (PosixPath [] [])
          = Inr (self', logger msg ?w1)
        \<and> all_samples_dirs self' = None
        \<and> fst (get_samples_metadata (logger ''Results path does not exist: /r'' ?w1)
             self' 0 10) = []"
    by blast+
  from c obtain self' msg where
    init: "Backend_init bare_world scenario_cfg (PosixPath [] []) = Inr (self', logger msg ?w1)"
    and none: "all_samples_dirs self' = None"
    by blast
  from none have "fst (get_samples_metadata (logger msg ?w1) self' 0 10) = []"
    by (simp add: get_samples_metadata_def samples_metadata_try_def)
  with init none have "\<exists>self' w'. Backend_init bare_world scenario_cfg (PosixPath [] [])
          = Inr (self', w')
        \<and> all_samples_dirs self' = None \<and> fst (get_samples_metadata w' self' 0 10) = []"
    by blast
  moreover from b have
    "fst (get_samples_metadata bare_world (backend_of (PStr ''thumb.png'') None) 0 10) = []"
    by (simp add: backend_of_def)
  ultimately show ?thesis using a by blast
qed

text \<open>
  \<^bold>\<open>C8\<close>, the claim as the specification words it, fails. A \<open>Backend\<close> that holds a
  sample list, read from its cache file or found while the folder was there, keeps
  it when discovery finds the results folder gone, and its pages are not empty.
\<close>

theorem stale_list_survives_counterexample:
  "path_exists bare_world results_r = Inr False
   \<and> discover_all_samples bare_world (backend_of (PStr ''thumb.png'') (Some [sample_a]))
      = Inr (backend_of (PStr ''thumb.png'') (Some [sample_a]),
             logger ''Results path does not exist: /r'' bare_world)
   \<and> fst (get_samples_metadata (logger ''Results path does not exist: /r'' bare_world)
        (backend_of (PStr ''thumb.png'') (Some [sample_a])) 0 10)
      = [\<lparr>meta_id = ''a'', meta_image = (PStr ''thumb.png'', ''a'')\<rparr>]"
  by (simp add: discover_all_samples_def backend_of_def bare_world_def empty_disk_def
      results_r_def as_posix_def get_samples_metadata_def samples_metadata_try_def
      py_slice_def slice_index_def sample_metadata_def sample_thumbnail_def path_name_def
      sample_a_def logger_def)


end
